theory Spec2Isabelle
  imports Main "HOL-Library.AList"
begin

section \<open>JavaScript strings\<close>

text \<open>
  Strings are \<open>char list\<close>s. Every pattern the link searches for is ASCII, and an
  ASCII byte never occurs inside a multi-byte UTF-8 sequence, so searching and replacing
  on bytes agrees with JavaScript's search on UTF-16 code units.
\<close>

text \<open>\<open>s.startsWith(p)\<close>\<close>

definition startsWith :: "string \<Rightarrow> string \<Rightarrow> bool" where
  "startsWith s p = (take (length p) s = p)"

text \<open>\<open>s.endsWith(p)\<close>\<close>

definition endsWith :: "string \<Rightarrow> string \<Rightarrow> bool" where
  "endsWith s p = (length p \<le> length s \<and> drop (length s - length p) s = p)"

text \<open>\<open>s.includes(p)\<close> (\<open>includes\<close> is a keyword of Isabelle, hence the longer name)\<close>

fun includesStr :: "string \<Rightarrow> string \<Rightarrow> bool" where
  "includesStr [] p = (p = [])"
| "includesStr (c # cs) p = (startsWith (c # cs) p \<or> includesStr cs p)"

text \<open>
  \<open>s.replace(p, r)\<close> with a string pattern: only the first (leftmost) occurrence of
  \<open>p\<close> is replaced; a string without \<open>p\<close> is returned as it is.
\<close>

fun replace :: "string \<Rightarrow> string \<Rightarrow> string \<Rightarrow> string" where
  "replace [] p r = (if p = [] then r else [])"
| "replace (c # cs) p r =
     (if startsWith (c # cs) p then r @ drop (length p) (c # cs)
      else c # replace cs p r)"

text \<open>\<open>s.replace(/_/g, '.')\<close>: the global regular expression replaces every underscore.\<close>

definition replace_underscores :: "string \<Rightarrow> string" where
  "replace_underscores s = map (\<lambda>c. if c = CHR ''_'' then CHR ''.'' else c) s"

section \<open>Search-key mapper\<close>

text \<open>
  \<open>getSearchKey\<close>, with the suffix tests in the order of the source:
  \<open>_in\<close>, \<open>_not\<close>, \<open>_exists\<close>, \<open>_not_in\<close>.
\<close>

definition getSearchKey :: "string \<Rightarrow> string" where
  "getSearchKey variableKey =
     (if endsWith variableKey ''_in'' then
        ''fields.'' @ replace variableKey ''_in'' '''' @ ''[in]''
      else if endsWith variableKey ''_not'' then
        ''fields.'' @ replace variableKey ''_not'' '''' @ ''[ne]''
      else if endsWith variableKey ''_exists'' then
        ''fields.'' @ replace variableKey ''_exists'' '''' @ ''[exists]''
      else if endsWith variableKey ''_not_in'' then
        ''fields.'' @ replace variableKey ''_not_in'' '''' @ ''[nin]''
      else ''fields.'' @ variableKey)"

section \<open>Exceptions\<close>

text \<open>
  Every exception that the link itself raises is a \<open>TypeError\<close>: a property read on
  \<open>undefined\<close> or \<open>null\<close>, or a call of a value that is not a function.
\<close>

datatype error = TypeError

section \<open>JavaScript values\<close>

text \<open>
  Runtime values (the operation's variables, the query defaults, the parameters handed to
  the REST client). An object is the list of its own properties in insertion order; a
  property is read at its first binding. (The order of insertion is the order in which
  JavaScript enumerates property names that are not array indices; a GraphQL name never
  is one.) Numbers are the integers: the link only tests a number for truthiness and
  renders it in decimal notation.
\<close>

datatype jsval =
    JUndefined
  | JNull
  | JBool bool
  | JNum int
  | JStr string
  | JArr "jsval list"
  | JObj "(string \<times> jsval) list"

type_synonym jsobj = "(string \<times> jsval) list"

text \<open>\<open>!!v\<close>\<close>

fun truthy :: "jsval \<Rightarrow> bool" where
  "truthy JUndefined = False"
| "truthy JNull = False"
| "truthy (JBool b) = b"
| "truthy (JNum n) = (n \<noteq> 0)"
| "truthy (JStr s) = (s \<noteq> [])"
| "truthy (JArr xs) = True"
| "truthy (JObj ps) = True"

text \<open>Whether the object has an own property \<open>k\<close>.\<close>

definition hasOwn :: "(string \<times> 'v) list \<Rightarrow> string \<Rightarrow> bool" where
  "hasOwn obj k = (map_of obj k \<noteq> None)"

text \<open>
  The call \<open>obj.hasOwnProperty(k)\<close>. The method is read from the object first: an own
  property named \<open>hasOwnProperty\<close> hides the method of \<open>Object.prototype\<close>, and its
  value (a runtime value or a binding, never a function) cannot be called, so the call
  throws.
\<close>

definition hasOwnProperty :: "(string \<times> 'v) list \<Rightarrow> string \<Rightarrow> error + bool" where
  "hasOwnProperty obj k =
     (if hasOwn obj ''hasOwnProperty'' then Inl TypeError else Inr (hasOwn obj k))"

text \<open>\<open>obj[k]\<close>\<close>

definition getProperty :: "jsobj \<Rightarrow> string \<Rightarrow> jsval" where
  "getProperty obj k = (case map_of obj k of None \<Rightarrow> JUndefined | Some v \<Rightarrow> v)"

text \<open>
  The own properties of an object in order, each key once, and \<open>Object.keys\<close>.
\<close>

definition ownEntries :: "(string \<times> 'v) list \<Rightarrow> (string \<times> 'v) list" where
  "ownEntries obj = AList.clearjunk obj"

definition objectKeys :: "(string \<times> 'v) list \<Rightarrow> string list" where
  "objectKeys obj = map fst (ownEntries obj)"

text \<open>
  The definition of an own property \<open>k\<close> with the value \<open>v\<close>, as an object literal
  and a spread do it: an existing property keeps its place, a new one is appended.
\<close>

definition setProperty :: "string \<Rightarrow> 'v \<Rightarrow> (string \<times> 'v) list \<Rightarrow> (string \<times> 'v) list" where
  "setProperty k v obj = AList.update k v obj"

text \<open>
  The assignment \<open>obj[k] = v\<close> on an object created by a literal. The key
  \<open>__proto__\<close> reaches the setter of \<open>Object.prototype\<close>, which changes the prototype
  and defines no own property; every other key defines the own property.
\<close>

definition assignProperty :: "string \<Rightarrow> 'v \<Rightarrow> (string \<times> 'v) list \<Rightarrow> (string \<times> 'v) list" where
  "assignProperty k v obj = (if k = ''__proto__'' then obj else setProperty k v obj)"

text \<open>
  \<open>{...target, ...source}\<close>: every own property of \<open>source\<close>, in order, is set on
  a copy of \<open>target\<close>.
\<close>

definition spread :: "(string \<times> 'v) list \<Rightarrow> (string \<times> 'v) list \<Rightarrow> (string \<times> 'v) list" where
  "spread target source = fold (\<lambda>(k, v). setProperty k v) (ownEntries source) target"

text \<open>
  \<open>omit(obj, keys)\<close> of the package \<open>lomit\<close>, which is not part of the repository:
  a copy of \<open>obj\<close> without the properties named in \<open>keys\<close>.
\<close>

definition omit :: "(string \<times> 'v) list \<Rightarrow> string list \<Rightarrow> (string \<times> 'v) list" where
  "omit obj keys = filter (\<lambda>(k, v). k \<notin> set keys) (ownEntries obj)"

subsection \<open>Conversion to strings\<close>

fun showNat :: "nat \<Rightarrow> string" where
  "showNat n =
     (if n < 10 then [''0123456789'' ! n]
      else showNat (n div 10) @ [''0123456789'' ! (n mod 10)])"

declare showNat.simps [simp del]

definition showInt :: "int \<Rightarrow> string" where
  "showInt i = (if i < 0 then CHR ''-'' # showNat (nat (- i)) else showNat (nat i))"

fun joinStrings :: "string \<Rightarrow> string list \<Rightarrow> string" where
  "joinStrings sep [] = []"
| "joinStrings sep [x] = x"
| "joinStrings sep (x # y # ys) = x @ sep @ joinStrings sep (y # ys)"

text \<open>
  \<open>String(v)\<close>. An array is rendered as its elements joined by commas, where
  \<open>undefined\<close> and \<open>null\<close> elements give the empty string.
\<close>

fun toString :: "jsval \<Rightarrow> string" where
  "toString JUndefined = ''undefined''"
| "toString JNull = ''null''"
| "toString (JBool b) = (if b then ''true'' else ''false'')"
| "toString (JNum n) = showInt n"
| "toString (JStr s) = s"
| "toString (JArr xs) =
     joinStrings '','' (map (\<lambda>x. if x = JUndefined \<or> x = JNull then [] else toString x) xs)"
| "toString (JObj ps) = ''[object Object]''"

text \<open>\<open>xs.join(sep)\<close>\<close>

definition join :: "jsval list \<Rightarrow> string \<Rightarrow> string" where
  "join xs sep =
     joinStrings sep (map (\<lambda>x. if x = JUndefined \<or> x = JNull then [] else toString x) xs)"

section \<open>Ordering normalizer\<close>

text \<open>
  The first two steps of \<open>getOrderValue\<close> on a non-empty string: the separators
  become dots, and \<open>fields.\<close> is prepended unless the value starts with \<open>sys.\<close>.
\<close>

definition orderPath :: "string \<Rightarrow> string" where
  "orderPath s =
     (let orderValue = replace_underscores s
      in if \<not> startsWith orderValue ''sys.'' then ''fields.'' @ orderValue else orderValue)"

text \<open>The direction suffix, as the source treats it: tested at the end, removed by \<open>replace\<close>.\<close>

definition orderDirection :: "string \<Rightarrow> string" where
  "orderDirection orderValue =
     (if endsWith orderValue ''.DESC'' then ''-'' @ replace orderValue ''.DESC'' ''''
      else if endsWith orderValue ''.ASC'' then replace orderValue ''.ASC'' ''''
      else orderValue)"

definition orderSysDates :: "string \<Rightarrow> string" where
  "orderSysDates orderValue =
     (let v1 = (if includesStr orderValue ''sys.firstPublishedAt''
                then replace orderValue ''sys.firstPublishedAt'' ''sys.createdAt''
                else orderValue)
      in if includesStr v1 ''sys.publishedAt''
         then replace v1 ''sys.publishedAt'' ''sys.updatedAt''
         else v1)"

text \<open>
  \<open>getOrderValue\<close>: a falsy value and a value that is not a string are returned as
  they are.
\<close>

definition getOrderValue :: "jsval \<Rightarrow> jsval" where
  "getOrderValue orderValue =
     (if \<not> truthy orderValue then orderValue
      else case orderValue of
        JStr s \<Rightarrow> JStr (orderSysDates (orderDirection (orderPath s)))
      | _ \<Rightarrow> orderValue)"

section \<open>The query syntax tree\<close>

text \<open>
  The nodes of a GraphQL document that the link reads, one constructor per node kind.
  A name node is its \<open>value\<close>; a property that a node kind does not have, or that the
  syntax tree leaves optional, reads as \<open>None\<close> (\<open>undefined\<close>).
\<close>

datatype valueNode =
    Variable string
  | IntValue string
  | FloatValue string
  | StringValue string
  | BooleanValue bool
  | NullValue
  | EnumValue string
  | ListValue "valueNode list"
  | ObjectValue "(string \<times> valueNode) list"

datatype argument = Argument (argumentName: string) (argumentValue: valueNode)

datatype selection =
    Field string "argument list option" "selection list option"
  | FragmentSpread string
  | InlineFragment "selection list"

datatype definitionNode =
    OperationDefinition string "string option" "string list option" "selection list"
  | FragmentDefinition string "selection list"

record document =
  definitions :: "definitionNode list"
  loc :: bool

record operation =
  query :: document
  operationName :: "string option"
  variables :: jsobj

text \<open>The constants of \<open>constants.js\<close>.\<close>

definition DefinitionKind_OperationDefinition :: string where
  "DefinitionKind_OperationDefinition = ''OperationDefinition''"

definition DefinitionKind_FramentDefinition :: string where
  "DefinitionKind_FramentDefinition = ''FragmentDefinition''"

definition SelectionKind_Field :: string where
  "SelectionKind_Field = ''Field''"

definition SelectionKind_FragmentSpread :: string where
  "SelectionKind_FragmentSpread = ''FragmentSpread''"

definition VariableKind_Argument :: string where
  "VariableKind_Argument = ''Argument''"

definition VariableKind_ObjectField :: string where
  "VariableKind_ObjectField = ''ObjectField''"

text \<open>Property reads on the nodes.\<close>

fun definitionKind :: "definitionNode \<Rightarrow> string" where
  "definitionKind (OperationDefinition opn nm vds sels) = ''OperationDefinition''"
| "definitionKind (FragmentDefinition nm sels) = ''FragmentDefinition''"

fun definitionOperation :: "definitionNode \<Rightarrow> string option" where
  "definitionOperation (OperationDefinition opn nm vds sels) = Some opn"
| "definitionOperation (FragmentDefinition nm sels) = None"

fun definitionName :: "definitionNode \<Rightarrow> string option" where
  "definitionName (OperationDefinition opn nm vds sels) = nm"
| "definitionName (FragmentDefinition nm sels) = Some nm"

text \<open>
  \<open>definition.variableDefinitions.map(v => v.variable.name.value)\<close>: the declared
  variable names, when the node has the list.
\<close>

fun variableDefinitions :: "definitionNode \<Rightarrow> string list option" where
  "variableDefinitions (OperationDefinition opn nm vds sels) = vds"
| "variableDefinitions (FragmentDefinition nm sels) = None"

fun selectionSet :: "definitionNode \<Rightarrow> selection list" where
  "selectionSet (OperationDefinition opn nm vds sels) = sels"
| "selectionSet (FragmentDefinition nm sels) = sels"

fun selectionKind :: "selection \<Rightarrow> string" where
  "selectionKind (Field nm args sub) = ''Field''"
| "selectionKind (FragmentSpread nm) = ''FragmentSpread''"
| "selectionKind (InlineFragment sub) = ''InlineFragment''"

fun selectionName :: "selection \<Rightarrow> string option" where
  "selectionName (Field nm args sub) = Some nm"
| "selectionName (FragmentSpread nm) = Some nm"
| "selectionName (InlineFragment sub) = None"

fun selectionArguments :: "selection \<Rightarrow> argument list option" where
  "selectionArguments (Field nm args sub) = args"
| "selectionArguments (FragmentSpread nm) = None"
| "selectionArguments (InlineFragment sub) = None"

fun selectionSelectionSet :: "selection \<Rightarrow> selection list option" where
  "selectionSelectionSet (Field nm args sub) = sub"
| "selectionSelectionSet (FragmentSpread nm) = None"
| "selectionSelectionSet (InlineFragment sub) = Some sub"

subsection \<open>The root query\<close>

text \<open>
  \<open>getRootQuery\<close>: \<open>query[operationName]\<close> when the document has an own property
  of that name, the document otherwise. The own properties of a document node are
  \<open>kind\<close>, \<open>definitions\<close> and, when the parser recorded it, \<open>loc\<close>; none of their
  values has a property \<open>definitions\<close>.
\<close>

datatype rootQuery = RootDocument document | RootProperty string

definition documentProperties :: "document \<Rightarrow> string list" where
  "documentProperties doc = [''kind'', ''definitions''] @ (if loc doc then [''loc''] else [])"

definition getRootQuery :: "operation \<Rightarrow> rootQuery" where
  "getRootQuery op =
     (case operationName op of
        Some nm \<Rightarrow>
          if nm \<in> set (documentProperties (query op)) then RootProperty nm
          else RootDocument (query op)
      | None \<Rightarrow> RootDocument (query op))"

fun rootDefinitions :: "rootQuery \<Rightarrow> definitionNode list option" where
  "rootDefinitions (RootDocument doc) = Some (definitions doc)"
| "rootDefinitions (RootProperty nm) = None"

text \<open>
  \<open>xs.find(p)\<close> for a predicate that may throw: the first element that satisfies
  \<open>p\<close>, or the first exception.
\<close>

fun findE :: "('a \<Rightarrow> error + bool) \<Rightarrow> 'a list \<Rightarrow> error + 'a option" where
  "findE p [] = Inr None"
| "findE p (x # xs) =
     (case p x of
        Inl e \<Rightarrow> Inl e
      | Inr True \<Rightarrow> Inr (Some x)
      | Inr False \<Rightarrow> findE p xs)"

text \<open>
  \<open>getRootKey\<close>. Reading \<open>selection.name.kind\<close> throws on a selection without a
  name; every name node has kind \<open>Name\<close>.
\<close>

definition getRootKey :: "operation \<Rightarrow> error + string option" where
  "getRootKey op =
     (case rootDefinitions (getRootQuery op) of
        None \<Rightarrow> Inl TypeError
      | Some defs \<Rightarrow>
          (case find (\<lambda>d. definitionOperation d = Some ''query'') defs of
             None \<Rightarrow> Inr None
           | Some d \<Rightarrow>
               (case findE (\<lambda>sel. case selectionName sel of
                                     None \<Rightarrow> Inl TypeError
                                   | Some nm \<Rightarrow> Inr True) (selectionSet d) of
                  Inl e \<Rightarrow> Inl e
                | Inr None \<Rightarrow> Inr None
                | Inr (Some sel) \<Rightarrow> Inr (selectionName sel))))"

section \<open>Variable-binding mapper\<close>

record binding =
  kind :: string
  field :: string

text \<open>A \<open>forEach\<close> whose body may throw.\<close>

fun foldE :: "('a \<Rightarrow> 's \<Rightarrow> error + 's) \<Rightarrow> 'a list \<Rightarrow> 's \<Rightarrow> error + 's" where
  "foldE f [] s = Inr s"
| "foldE f (x # xs) s = (case f x s of Inl e \<Rightarrow> Inl e | Inr s' \<Rightarrow> foldE f xs s')"

definition bindField :: "string \<times> valueNode \<Rightarrow> (string \<times> binding) list \<Rightarrow> (string \<times> binding) list" where
  "bindField fld variableMap =
     (case snd fld of
        Variable vn \<Rightarrow>
          if vn \<noteq> [] \<and> fst fld \<noteq> []
          then assignProperty vn \<lparr>kind = VariableKind_ObjectField, field = fst fld\<rparr> variableMap
          else variableMap
      | _ \<Rightarrow> variableMap)"

definition bindArgument :: "argument \<Rightarrow> (string \<times> binding) list \<Rightarrow> (string \<times> binding) list" where
  "bindArgument arg variableMap =
     (case argumentValue arg of
        ObjectValue flds \<Rightarrow> fold bindField flds variableMap
      | Variable vn \<Rightarrow>
          if vn \<noteq> [] \<and> argumentName arg \<noteq> []
          then assignProperty vn \<lparr>kind = VariableKind_Argument, field = argumentName arg\<rparr> variableMap
          else variableMap
      | _ \<Rightarrow> variableMap)"

definition bindSelection :: "selection \<Rightarrow> (string \<times> binding) list \<Rightarrow> error + (string \<times> binding) list" where
  "bindSelection sel variableMap =
     (case selectionArguments sel of
        None \<Rightarrow> Inl TypeError
      | Some args \<Rightarrow> Inr (fold bindArgument args variableMap))"

definition buildVariableMap :: "operation \<Rightarrow> error + (string \<times> binding) list" where
  "buildVariableMap op =
     (case rootDefinitions (getRootQuery op) of
        None \<Rightarrow> Inl TypeError
      | Some defs \<Rightarrow>
          foldE (\<lambda>d. foldE bindSelection (selectionSet d))
            (filter (\<lambda>d. definitionKind d = DefinitionKind_OperationDefinition) defs) [])"

section \<open>Query-variable translator\<close>

definition contentfulReservedParameters :: "string list" where
  "contentfulReservedParameters =
     [''access_token'', ''id'', ''include'', ''locale'', ''content_type'', ''select'',
      ''query'', ''links_to_entry'', ''links_to_asset'', ''order'', ''limit'', ''skip'',
      ''mimetype_group'', ''preview'']"

text \<open>\<open>argumentValue?.value\<close> of an element of a list value.\<close>

fun literalValue :: "valueNode \<Rightarrow> jsval" where
  "literalValue (IntValue s) = JStr s"
| "literalValue (FloatValue s) = JStr s"
| "literalValue (StringValue s) = JStr s"
| "literalValue (EnumValue s) = JStr s"
| "literalValue (BooleanValue b) = JBool b"
| "literalValue (Variable vn) = JUndefined"
| "literalValue NullValue = JUndefined"
| "literalValue (ListValue vs) = JUndefined"
| "literalValue (ObjectValue fs) = JUndefined"

text \<open>The \<open>switch\<close> on the kind of an inline argument's value; \<open>value\<close> starts as \<open>null\<close>.\<close>

fun inlineValue :: "string \<Rightarrow> valueNode \<Rightarrow> jsval" where
  "inlineValue nm (ListValue vs) =
     JStr (join (map (\<lambda>v. if nm = ''order'' then getOrderValue (literalValue v)
                           else literalValue v) vs) '','')"
| "inlineValue nm (BooleanValue b) = JBool b"
| "inlineValue nm (EnumValue s) = JStr s"
| "inlineValue nm (FloatValue s) = JStr s"
| "inlineValue nm (IntValue s) = JStr s"
| "inlineValue nm (StringValue s) = JStr s"
| "inlineValue nm (Variable vn) = JStr vn"
| "inlineValue nm NullValue = JNull"
| "inlineValue nm (ObjectValue fs) = JNull"

text \<open>One inline argument: \<open>None\<close> is the \<open>null\<close> that the following \<open>filter\<close> drops.\<close>

definition operationArgument :: "argument \<Rightarrow> (string \<times> jsval) option" where
  "operationArgument arg =
     (if argumentName arg = [] then None
      else let v = inlineValue (argumentName arg) (argumentValue arg)
           in if \<not> truthy v then None else Some (argumentName arg, v))"

text \<open>\<open>items.filter(x => !!x).reduce((acc, cur) => ({...acc, ...cur}), {})\<close>\<close>

definition mergeEntries :: "(string \<times> jsval) option list \<Rightarrow> jsobj" where
  "mergeEntries items = fold (\<lambda>cur acc. spread acc [cur]) (List.map_filter id items) []"

definition operationArguments :: "argument list \<Rightarrow> jsobj" where
  "operationArguments args = mergeEntries (map operationArgument args)"

text \<open>
  The body of the \<open>try\<close> for one bound variable. \<open>Inr None\<close> is a \<open>null\<close> or
  \<open>undefined\<close> result; \<open>Inl\<close> is an exception: \<open>map\<close> is a method of arrays only.
\<close>

definition translateVariable ::
  "(string \<times> binding) list \<Rightarrow> jsobj \<Rightarrow> string \<Rightarrow> error + (string \<times> jsval) option" where
  "translateVariable variableMap vars variableKey =
     (case map_of variableMap variableKey of
        None \<Rightarrow> Inl TypeError
      | Some b \<Rightarrow>
          if kind b = VariableKind_Argument then
            (if field b \<noteq> [] \<and> field b \<in> set contentfulReservedParameters then
               (if field b = ''preview'' \<and> \<not> truthy (getProperty vars variableKey) then Inr None
                else if field b = ''order'' then
                  (case getProperty vars variableKey of
                     JArr xs \<Rightarrow> Inr (Some (field b, JStr (join (map getOrderValue xs) '','')))
                   | _ \<Rightarrow> Inl TypeError)
                else Inr (Some (field b, getProperty vars variableKey)))
             else Inr None)
          else if kind b = VariableKind_ObjectField then
            Inr (Some (getSearchKey (field b), getProperty vars variableKey))
          else Inr None)"

text \<open>\<open>try { ... } catch (err) { console.error(err); return null }\<close>\<close>

definition tryTranslateVariable ::
  "(string \<times> binding) list \<Rightarrow> jsobj \<Rightarrow> string \<Rightarrow> (string \<times> jsval) option" where
  "tryTranslateVariable variableMap vars variableKey =
     (case translateVariable variableMap vars variableKey of
        Inl err \<Rightarrow> None
      | Inr r \<Rightarrow> r)"

text \<open>A \<open>filter\<close> whose predicate may throw.\<close>

fun filterE :: "('a \<Rightarrow> error + bool) \<Rightarrow> 'a list \<Rightarrow> error + 'a list" where
  "filterE p [] = Inr []"
| "filterE p (x # xs) =
     (case p x of
        Inl e \<Rightarrow> Inl e
      | Inr b \<Rightarrow>
          (case filterE p xs of
             Inl e \<Rightarrow> Inl e
           | Inr ys \<Rightarrow> Inr (if b then x # ys else ys)))"

text \<open>
  The predicate of the filter on the keys of the binding map:
  \<open>variables && variables.hasOwnProperty(variableKey) && variableMap &&
  variableMap.hasOwnProperty(variableKey)\<close>, the second call made only when the first
  returns true.
\<close>

definition isBoundKey :: "(string \<times> binding) list \<Rightarrow> jsobj \<Rightarrow> string \<Rightarrow> error + bool" where
  "isBoundKey variableMap vars variableKey =
     (case hasOwnProperty vars variableKey of
        Inl e \<Rightarrow> Inl e
      | Inr False \<Rightarrow> Inr False
      | Inr True \<Rightarrow> hasOwnProperty variableMap variableKey)"

definition boundKeys :: "(string \<times> binding) list \<Rightarrow> jsobj \<Rightarrow> error + string list" where
  "boundKeys variableMap vars = filterE (isBoundKey variableMap vars) (objectKeys variableMap)"

text \<open>The \<open>map\<close>, \<open>filter\<close> and \<open>reduce\<close> on the keys that the filter kept.\<close>

definition translateKeys :: "(string \<times> binding) list \<Rightarrow> jsobj \<Rightarrow> string list \<Rightarrow> jsobj" where
  "translateKeys variableMap vars keys =
     mergeEntries (map (tryTranslateVariable variableMap vars) keys)"

text \<open>
  The keys that the filter keeps when none of its calls throws (the variables that the
  binding map and the runtime variables both have), and the translation of the bound
  variables on them.
\<close>

definition presentKeys :: "(string \<times> binding) list \<Rightarrow> jsobj \<Rightarrow> string list" where
  "presentKeys variableMap vars =
     filter (\<lambda>variableKey. hasOwn vars variableKey \<and> hasOwn variableMap variableKey)
       (objectKeys variableMap)"

definition operationQueries :: "(string \<times> binding) list \<Rightarrow> jsobj \<Rightarrow> jsobj" where
  "operationQueries variableMap vars =
     translateKeys variableMap vars (presentKeys variableMap vars)"

text \<open>
  \<open>parseQueryVariables\<close>. Every read of a property of \<open>undefined\<close> is a
  \<open>TypeError\<close>: no operation definition, no list of variable definitions, no first
  selection, a first selection without arguments. So is a call of \<open>hasOwnProperty\<close> in
  the filter that does not reach the method.
\<close>

definition parseQueryVariables :: "operation \<Rightarrow> error + jsobj" where
  "parseQueryVariables op =
     (case buildVariableMap op of
        Inl e \<Rightarrow> Inl e
      | Inr variableMap \<Rightarrow>
          (case rootDefinitions (getRootQuery op) of
             None \<Rightarrow> Inl TypeError
           | Some defs \<Rightarrow>
               (case find (\<lambda>d. definitionKind d = DefinitionKind_OperationDefinition) defs of
                  None \<Rightarrow> Inl TypeError
                | Some operationDefinition \<Rightarrow>
                    (case variableDefinitions operationDefinition of
                       None \<Rightarrow> Inl TypeError
                     | Some operationVariables \<Rightarrow>
                         (case selectionSet operationDefinition of
                            [] \<Rightarrow> Inl TypeError
                          | sel # rest \<Rightarrow>
                              (case selectionArguments sel of
                                 None \<Rightarrow> Inl TypeError
                               | Some args \<Rightarrow>
                                   (case boundKeys variableMap (variables op) of
                                      Inl e \<Rightarrow> Inl e
                                    | Inr keys \<Rightarrow>
                                        Inr (spread
                                              (spread (spread [] (operationArguments args))
                                                 (translateKeys variableMap (variables op) keys))
                                              (omit (variables op) operationVariables)))))))))"

section \<open>Selection-tree extractor\<close>

text \<open>
  The shape of a response: \<open>null\<close> for a selection without sub-selections, an object
  from field names (and \<open>...FragmentName\<close>) to shapes otherwise.
\<close>

datatype shape = Leaf | Shape "(string \<times> shape) list"

text \<open>The entry of a shape under a key, if it has one.\<close>

fun shapeEntry :: "shape \<Rightarrow> string \<Rightarrow> shape option" where
  "shapeEntry Leaf k = None"
| "shapeEntry (Shape entries) k = map_of entries k"

text \<open>
  The fragment definition that a spread refers to: the first definition of kind
  \<open>FragmentDefinition\<close> whose name is the spread's, both names being non-empty.
\<close>

definition findFragment :: "definitionNode list \<Rightarrow> string \<Rightarrow> definitionNode option" where
  "findFragment defs nm =
     find (\<lambda>d. definitionKind d = DefinitionKind_FramentDefinition \<and>
                (case definitionName d of
                   None \<Rightarrow> False
                 | Some dn \<Rightarrow> dn \<noteq> [] \<and> nm \<noteq> [] \<and> dn = nm)) defs"

text \<open>A \<open>forEach\<close> whose body may fail to return.\<close>

fun foldO :: "('a \<Rightarrow> 's \<Rightarrow> 's option) \<Rightarrow> 'a list \<Rightarrow> 's \<Rightarrow> 's option" where
  "foldO f [] s = Some s"
| "foldO f (x # xs) s = (case f x s of None \<Rightarrow> None | Some s' \<Rightarrow> foldO f xs s')"

text \<open>
  The body of the \<open>forEach\<close> of \<open>extractSelections\<close>, for one selection; \<open>recur\<close>
  is the recursive call. \<open>None\<close> means that a recursive call did not return.
\<close>

definition extractSelection ::
  "(selection list option \<Rightarrow> shape option) \<Rightarrow> definitionNode list \<Rightarrow> selection \<Rightarrow>
     (string \<times> shape) list \<Rightarrow> (string \<times> shape) list option" where
  "extractSelection recur defs sel selections =
     (if selectionKind sel = SelectionKind_Field then
        (case selectionName sel of
           None \<Rightarrow> Some selections
         | Some nm \<Rightarrow>
             if nm \<noteq> [] then
               (case recur (selectionSelectionSet sel) of
                  None \<Rightarrow> None
                | Some sh \<Rightarrow> Some (assignProperty nm sh selections))
             else Some selections)
      else if selectionKind sel = SelectionKind_FragmentSpread then
        (case selectionName sel of
           None \<Rightarrow> Some selections
         | Some nm \<Rightarrow>
             (case findFragment defs nm of
                None \<Rightarrow> Some selections
              | Some fragmentDefinition \<Rightarrow>
                  (case recur (Some (selectionSet fragmentDefinition)) of
                     None \<Rightarrow> None
                   | Some sh \<Rightarrow> Some (assignProperty (''...'' @ nm) sh selections))))
      else Some selections)"

text \<open>
  \<open>extractSelections\<close>. The recursion follows fragment spreads, and a fragment that
  spreads itself makes it run until the stack is exhausted; the first argument bounds the
  depth of the calls, and \<open>None\<close> is a run that needs a deeper stack than that.
\<close>

primrec extractSelections ::
  "nat \<Rightarrow> definitionNode list \<Rightarrow> selection list option \<Rightarrow> shape option" where
  "extractSelections 0 defs selSet = None"
| "extractSelections (Suc n) defs selSet =
     (case selSet of
        None \<Rightarrow> Some Leaf
      | Some sels \<Rightarrow>
          if sels = [] then Some Leaf
          else map_option Shape
                 (foldO (extractSelection (extractSelections n defs) defs) sels []))"

section \<open>Definition-map builder\<close>

definition buildDefinitionMap :: "nat \<Rightarrow> operation \<Rightarrow> (string \<times> shape) list option" where
  "buildDefinitionMap depth op =
     (case find (\<lambda>d. definitionKind d = DefinitionKind_OperationDefinition)
             (definitions (query op)) of
        None \<Rightarrow> Some []
      | Some operationDefinition \<Rightarrow>
          (case definitionName operationDefinition of
             None \<Rightarrow> Some []
           | Some nm \<Rightarrow>
               if nm = [] then Some []
               else map_option (\<lambda>sh. [(nm, sh)])
                      (extractSelections depth (definitions (query op))
                         (Some (selectionSet operationDefinition)))))"

section \<open>Request orchestrator\<close>

text \<open>
  The link. A REST client is created by the package \<open>contentful\<close> from its options and
  is represented by them; the preview client exists when the client options have a truthy
  \<open>previewAccessToken\<close>. \<open>ContentfulRestLink\<close> gives the fields that the constructor
  sets; \<open>newContentfulRestLink\<close> is the construction, in which the call
  \<open>clientOptions.hasOwnProperty('previewAccessToken')\<close> may throw.
\<close>

record link =
  clientOptions :: jsobj
  queryDefaults :: jsobj
  client :: jsobj
  previewClient :: "jsobj option"

definition ContentfulRestLink :: "jsobj \<Rightarrow> jsobj \<Rightarrow> link" where
  "ContentfulRestLink options defaults =
     \<lparr>clientOptions = options,
      queryDefaults = defaults,
      client = spread [] (omit options [''previewAccessToken'']),
      previewClient =
        (if hasOwn options ''previewAccessToken'' \<and>
            truthy (getProperty options ''previewAccessToken'')
         then Some (setProperty ''host'' (JStr ''preview.contentful.com'')
                      (setProperty ''accessToken'' (getProperty options ''previewAccessToken'')
                         (spread [] (omit options [''previewAccessToken'']))))
         else None)\<rparr>"

definition newContentfulRestLink :: "jsobj \<Rightarrow> jsobj \<Rightarrow> error + link" where
  "newContentfulRestLink options defaults =
     (case hasOwnProperty options ''previewAccessToken'' of
        Inl e \<Rightarrow> Inl e
      | Inr b \<Rightarrow> Inr (ContentfulRestLink options defaults))"

datatype clientRef = DeliveryClient | PreviewClient

record restCall =
  via :: clientRef
  queryMethod :: string
  queryArgs :: "jsval list"

text \<open>
  The query method, from the translated variables:
  \<open>queryVariables && queryVariables.hasOwnProperty('id') ? 'getEntry' : 'getEntries'\<close>.
\<close>

definition queryMethodFor :: "jsobj \<Rightarrow> error + string" where
  "queryMethodFor queryVariables =
     (case hasOwnProperty queryVariables ''id'' of
        Inl e \<Rightarrow> Inl e
      | Inr b \<Rightarrow> Inr (if b then ''getEntry'' else ''getEntries''))"

text \<open>
  The query arguments for the method. \<open>rootKey.replace\<close> throws when there is no root
  key (\<open>getRootKey\<close> returned \<open>null\<close>).
\<close>

definition queryArgsFor :: "link \<Rightarrow> string option \<Rightarrow> jsobj \<Rightarrow> string \<Rightarrow> error + jsval list" where
  "queryArgsFor l rootKey queryVariables method =
     (if method = ''getEntry'' then
        Inr [getProperty queryVariables ''id'',
             JObj (spread (spread [] (queryDefaults l))
                     (omit queryVariables [''id'', ''preview'']))]
      else
        (case rootKey of
           None \<Rightarrow> Inl TypeError
         | Some rk \<Rightarrow>
             Inr [JObj (setProperty ''content_type'' (JStr (replace rk ''Collection'' ''''))
                          (spread (spread [] (queryDefaults l))
                             (omit queryVariables [''preview''])))]))"

text \<open>
  \<open>this.previewClient && queryVariables && queryVariables.hasOwnProperty('preview') &&
  queryVariables.preview\<close>: without a preview client the method is not called.
\<close>

definition usePreview :: "link \<Rightarrow> jsobj \<Rightarrow> error + bool" where
  "usePreview l queryVariables =
     (if previewClient l = None then Inr False
      else case hasOwnProperty queryVariables ''preview'' of
             Inl e \<Rightarrow> Inl e
           | Inr b \<Rightarrow> Inr (b \<and> truthy (getProperty queryVariables ''preview'')))"

text \<open>
  The synchronous part of the subscriber, up to the call of the client: the root key and
  the call, or the exception thrown on the way.
\<close>

definition planRequest :: "link \<Rightarrow> operation \<Rightarrow> error + string option \<times> restCall" where
  "planRequest l op =
     (case getRootKey op of
        Inl e \<Rightarrow> Inl e
      | Inr rootKey \<Rightarrow>
          (case parseQueryVariables op of
             Inl e \<Rightarrow> Inl e
           | Inr queryVariables \<Rightarrow>
               (case queryMethodFor queryVariables of
                  Inl e \<Rightarrow> Inl e
                | Inr method \<Rightarrow>
                    (case queryArgsFor l rootKey queryVariables method of
                       Inl e \<Rightarrow> Inl e
                     | Inr args \<Rightarrow>
                         (case usePreview l queryVariables of
                            Inl e \<Rightarrow> Inl e
                          | Inr preview \<Rightarrow>
                              Inr (rootKey,
                                   \<lparr>via = (if preview then PreviewClient else DeliveryClient),
                                    queryMethod = method,
                                    queryArgs = args\<rparr>))))))"

subsection \<open>Promises and the observer\<close>

text \<open>
  The settled state of a promise, and what the subscriber does to the outside: the
  notifications of the observer and the errors written to the console.
\<close>

datatype 'a promise = Resolved 'a | Rejected jsval

datatype effect =
    ObserverNext jsval jsval
  | ObserverComplete
  | ObserverError jsval
  | ConsoleError jsval

text \<open>
  The collaborators that are not part of the repository: the REST client, the parser
  \<open>graphqlParser\<close> of \<open>contentful-parsers\<close> (which may throw) and the evaluator
  \<open>graphql\<close> of \<open>graphql-anywhere\<close>.
\<close>

record ('p, 't) collaborators =
  fetch :: "restCall \<Rightarrow> 'p promise"
  graphqlParser :: "string option \<Rightarrow> 'p \<Rightarrow> shape option \<Rightarrow> jsval + 't"
  graphql :: "document \<Rightarrow> 't \<Rightarrow> jsval promise"

text \<open>\<open>definitionMap[operationName]\<close>; an undefined name reads the property \<open>undefined\<close>.\<close>

definition shapeFor :: "(string \<times> shape) list \<Rightarrow> string option \<Rightarrow> shape option" where
  "shapeFor definitionMap nm =
     map_of definitionMap (case nm of None \<Rightarrow> ''undefined'' | Some n \<Rightarrow> n)"

text \<open>
  The promise chain on the client's call:
  \<open>.then(contentfulData => ...)\<close> with the inner chain
  \<open>graphql(...).then(...).catch(error => console.error(error))\<close>, which the callback does
  not return, and the outer \<open>.catch(error => observer.error(error))\<close>.
  The result is \<open>None\<close> when the extraction of the shape needs more than \<open>depth\<close>
  nested calls.
\<close>

definition settle ::
  "nat \<Rightarrow> ('p, 't) collaborators \<Rightarrow> operation \<Rightarrow> string option \<Rightarrow> jsval \<Rightarrow> 'p promise \<Rightarrow>
     effect list option" where
  "settle depth collab op rootKey errors fetched =
     (case fetched of
        Rejected err \<Rightarrow> Some [ObserverError err]
      | Resolved contentfulData \<Rightarrow>
          (case buildDefinitionMap depth op of
             None \<Rightarrow> None
           | Some definitionMap \<Rightarrow>
               (case graphqlParser collab rootKey contentfulData
                       (shapeFor definitionMap (operationName op)) of
                  Inl err \<Rightarrow> Some [ObserverError err]
                | Inr parsedData \<Rightarrow>
                    (case graphql collab (query op) parsedData of
                       Resolved data \<Rightarrow> Some [ObserverNext data errors, ObserverComplete]
                     | Rejected err \<Rightarrow> Some [ConsoleError err]))))"

text \<open>
  The subscriber of the observable that \<open>request\<close> returns for one upstream emission
  \<open>{data, errors}\<close>: \<open>Inl\<close> when it throws before the client is called, the effects
  of the settled promise chain otherwise.
\<close>

definition subscriber ::
  "nat \<Rightarrow> ('p, 't) collaborators \<Rightarrow> link \<Rightarrow> operation \<Rightarrow> jsval \<Rightarrow> error + effect list option" where
  "subscriber depth collab l op errors =
     (case planRequest l op of
        Inl e \<Rightarrow> Inl e
      | Inr (rootKey, call) \<Rightarrow> Inr (settle depth collab op rootKey errors (fetch collab call)))"

text \<open>The observer's notifications among the effects.\<close>

fun isNotification :: "effect \<Rightarrow> bool" where
  "isNotification (ConsoleError err) = False"
| "isNotification e = True"

definition notifications :: "effect list \<Rightarrow> effect list" where
  "notifications effects = filter isNotification effects"

text \<open>
  \<open>request\<close>. The upstream observable is \<open>forward(operation)\<close>, or, without a
  \<open>forward\<close>, the single emission \<open>{data: {}}\<close>, whose \<open>errors\<close> are undefined. It is
  represented by the list of its emissions \<open>(data, errors)\<close>; \<open>flatMap\<close> starts one
  subscriber for each of them, and the result lists what each subscriber does. The calls
  of \<open>console.debug\<close> are left out.
\<close>

definition upstream ::
  "(operation \<Rightarrow> (jsval \<times> jsval) list) option \<Rightarrow> operation \<Rightarrow> (jsval \<times> jsval) list" where
  "upstream forward op =
     (case forward of
        None \<Rightarrow> [(JObj [], JUndefined)]
      | Some f \<Rightarrow> f op)"

definition request ::
  "nat \<Rightarrow> ('p, 't) collaborators \<Rightarrow> link \<Rightarrow> operation \<Rightarrow>
     (operation \<Rightarrow> (jsval \<times> jsval) list) option \<Rightarrow> (error + effect list option) list" where
  "request depth collab l op forward =
     map (\<lambda>(data, errors). subscriber depth collab l op errors) (upstream forward op)"

section \<open>The specification's wording\<close>

text \<open>
  The definitions of this section follow the words of the specification, not the source;
  the theorems below compare them with the functions above.
\<close>

text \<open>"Strip a trailing suffix": the string without the suffix when it ends in it.\<close>

definition stripSuffix_spec :: "string \<Rightarrow> string \<Rightarrow> string" where
  "stripSuffix_spec s p = (if endsWith s p then take (length s - length p) s else s)"

text \<open>
  The ordering normalizer as the specification describes it: replace the separators by
  dots; prepend \<open>fields.\<close> unless the value starts with \<open>sys.\<close>; a trailing
  \<open>.DESC\<close> is stripped and a \<open>-\<close> prepended, a trailing \<open>.ASC\<close> is stripped; the two
  legacy date fields are renamed.
\<close>

definition getOrderValue_spec :: "string \<Rightarrow> string" where
  "getOrderValue_spec s =
     (let t1 = map (\<lambda>c. if c = CHR ''_'' then CHR ''.'' else c) s;
          t2 = (if startsWith t1 ''sys.'' then t1 else ''fields.'' @ t1);
          t3 = (if endsWith t2 ''.DESC'' then ''-'' @ stripSuffix_spec t2 ''.DESC''
                else if endsWith t2 ''.ASC'' then stripSuffix_spec t2 ''.ASC''
                else t2);
          t4 = replace t3 ''sys.firstPublishedAt'' ''sys.createdAt''
      in replace t4 ''sys.publishedAt'' ''sys.updatedAt'')"

text \<open>
  The precondition under which the specification calls the query-variable translator
  total: the root query has an operation definition, and the first selection of the first
  one carries a list of arguments.
\<close>

definition firstSelectionHasArguments :: "operation \<Rightarrow> bool" where
  "firstSelectionHasArguments op =
     (case rootDefinitions (getRootQuery op) of
        None \<Rightarrow> False
      | Some defs \<Rightarrow>
          (case find (\<lambda>d. definitionKind d = DefinitionKind_OperationDefinition) defs of
             None \<Rightarrow> False
           | Some d \<Rightarrow>
               (case selectionSet d of
                  [] \<Rightarrow> False
                | sel # rest \<Rightarrow> selectionArguments sel \<noteq> None)))"

section \<open>The layers of the query-variable translator, as specified\<close>

text \<open>
  The parameter set is "an unordered mapping from backend parameter name to value": the
  layers are maps, and a shallow merge in which the later layer overrides is \<open>++\<close>.
\<close>

text \<open>
  Layer 1, one argument: "evaluate its literal value by kind: list values are joined into
  a comma-separated string (special-casing the \<open>order\<close> argument name to run each
  element through the Ordering Normalizer first); scalar kinds pass through their literal
  value; a variable-reference kind resolves to the name of the referenced variable".
  \<open>None\<close>: the value cannot be determined.
\<close>

fun inlineLiteral_spec :: "string \<Rightarrow> valueNode \<Rightarrow> jsval option" where
  "inlineLiteral_spec nm (ListValue vs) =
     Some (JStr (join (map (\<lambda>v. if nm = ''order'' then getOrderValue (literalValue v)
                                 else literalValue v) vs) '',''))"
| "inlineLiteral_spec nm (BooleanValue b) = Some (JBool b)"
| "inlineLiteral_spec nm (EnumValue s) = Some (JStr s)"
| "inlineLiteral_spec nm (FloatValue s) = Some (JStr s)"
| "inlineLiteral_spec nm (IntValue s) = Some (JStr s)"
| "inlineLiteral_spec nm (StringValue s) = Some (JStr s)"
| "inlineLiteral_spec nm (Variable vn) = Some (JStr vn)"
| "inlineLiteral_spec nm NullValue = None"
| "inlineLiteral_spec nm (ObjectValue fs) = None"

text \<open>
  Layer 1: "arguments whose name or value cannot be determined, or whose evaluated value
  is falsy, are dropped"; of two arguments of one name the later one stays.
\<close>

fun inlineArguments_spec :: "argument list \<Rightarrow> (string \<rightharpoonup> jsval)" where
  "inlineArguments_spec [] = Map.empty"
| "inlineArguments_spec (arg # args) =
     (case inlineLiteral_spec (argumentName arg) (argumentValue arg) of
        None \<Rightarrow> inlineArguments_spec args
      | Some v \<Rightarrow>
          if argumentName arg \<noteq> [] \<and> truthy v
          then [argumentName arg \<mapsto> v] ++ inlineArguments_spec args
          else inlineArguments_spec args)"

text \<open>
  Layer 2, one variable with its binding and its runtime value. \<open>Argument\<close> kind: "if
  the bound field is in the Reserved Parameter Set, pass the runtime value through under
  that field name, with two special cases: \<open>preview\<close> is dropped entirely when its
  runtime value is falsy; \<open>order\<close> runs every element of the runtime value through the
  Ordering Normalizer and joins with commas"; "bindings whose field is not reserved are
  dropped". \<open>ObjectField\<close> kind: "compute the backend key via the Search-Key Mapper on
  the bound field name". "Any exception during a single variable's translation is caught
  and that variable is skipped": an \<open>order\<close> whose runtime value has no elements to run
  through.
\<close>

definition boundVariable_spec :: "binding \<Rightarrow> jsval \<Rightarrow> (string \<times> jsval) option" where
  "boundVariable_spec b v =
     (if kind b = ''Argument'' then
        (if field b = ''preview'' then (if truthy v then Some (''preview'', v) else None)
         else if field b = ''order'' then
           (case v of
              JArr xs \<Rightarrow> Some (''order'', JStr (join (map getOrderValue xs) '',''))
            | _ \<Rightarrow> None)
         else if field b \<in> {''access_token'', ''id'', ''include'', ''locale'', ''content_type'',
                             ''select'', ''query'', ''links_to_entry'', ''links_to_asset'',
                             ''limit'', ''skip'', ''mimetype_group''}
         then Some (field b, v)
         else None)
      else if kind b = ''ObjectField'' then Some (getSearchKey (field b), v)
      else None)"

text \<open>
  Layer 2: "for each variable name present in both the runtime variables and the
  VariableBinding map", in the order of the binding map; a later variable overrides an
  earlier one that is translated to the same key.
\<close>

fun boundVariables_spec ::
  "(string \<times> binding) list \<Rightarrow> (string \<rightharpoonup> jsval) \<Rightarrow> (string \<rightharpoonup> jsval)" where
  "boundVariables_spec [] vars = Map.empty"
| "boundVariables_spec (e # bindings) vars =
     (case vars (fst e) of
        None \<Rightarrow> boundVariables_spec bindings vars
      | Some v \<Rightarrow>
          (case boundVariable_spec (snd e) v of
             None \<Rightarrow> boundVariables_spec bindings vars
           | Some kv \<Rightarrow> [fst kv \<mapsto> snd kv] ++ boundVariables_spec bindings vars))"

text \<open>
  Layer 3: "the set of raw variables minus the declared operation-variable names".
\<close>

definition passthrough_spec :: "jsobj \<Rightarrow> string list \<Rightarrow> (string \<rightharpoonup> jsval)" where
  "passthrough_spec vars declared = (\<lambda>k. if k \<in> set declared then None else map_of vars k)"

section \<open>The shape of a selection set, as specified\<close>

text \<open>
  "Locate the matching FragmentDefinition by name": the selection set of the first
  fragment definition of that name.
\<close>

fun fragmentNamed_spec :: "definitionNode list \<Rightarrow> string \<Rightarrow> selection list option" where
  "fragmentNamed_spec [] nm = None"
| "fragmentNamed_spec (OperationDefinition opn onm vds sels # defs) nm =
     fragmentNamed_spec defs nm"
| "fragmentNamed_spec (FragmentDefinition fnm sels # defs) nm =
     (if fnm = nm then Some sels else fragmentNamed_spec defs nm)"

text \<open>
  What one selection records: "for each Field selection with a resolvable name, recurse
  into its nested SelectionSet and record under that name. For each FragmentSpread,
  locate the matching FragmentDefinition by name; if found, recurse into its SelectionSet
  and record the result under key \<open>...<FragmentName>\<close>; if not found, silently omit".
  The result is the key and the selection set to recurse into.
\<close>

fun recordedKey_spec ::
  "definitionNode list \<Rightarrow> selection \<Rightarrow> (string \<times> selection list option) option" where
  "recordedKey_spec defs (Field nm args sub) = (if nm = [] then None else Some (nm, sub))"
| "recordedKey_spec defs (FragmentSpread nm) =
     (if nm = [] then None
      else map_option (\<lambda>body. (''...'' @ nm, Some body)) (fragmentNamed_spec defs nm))"
| "recordedKey_spec defs (InlineFragment sub) = None"

text \<open>
  The selection set recorded under a key by a sequence of selections: that of the last
  selection that records under the key.
\<close>

definition recorded_spec ::
  "definitionNode list \<Rightarrow> selection list \<Rightarrow> string \<Rightarrow> selection list option option" where
  "recorded_spec defs sels = map_of (rev (List.map_filter (recordedKey_spec defs) sels))"

text \<open>
  The ShapeDescriptor of a selection set: "null if the input is empty/absent"; otherwise
  a mapping with exactly the recorded keys, each with the ShapeDescriptor of the
  selection set recorded under it.
\<close>

inductive shapeOf_spec :: "definitionNode list \<Rightarrow> selection list option \<Rightarrow> shape \<Rightarrow> bool"
  for defs :: "definitionNode list" where
  absent: "shapeOf_spec defs None Leaf"
| empty: "shapeOf_spec defs (Some []) Leaf"
| selections:
    "sels \<noteq> [] \<Longrightarrow>
     (\<forall>k. recorded_spec defs sels k = None \<longrightarrow> map_of entries k = None) \<Longrightarrow>
     (\<forall>k source. recorded_spec defs sels k = Some source \<longrightarrow>
        (\<exists>sh. map_of entries k = Some sh \<and> shapeOf_spec defs source sh)) \<Longrightarrow>
     shapeOf_spec defs (Some sels) (Shape entries)"

text \<open>
  The names of the fragment spreads of a selection, also of those below its fields.
\<close>

fun spreadNames :: "selection \<Rightarrow> string list" where
  "spreadNames (Field nm args None) = []"
| "spreadNames (Field nm args (Some sub)) = concat (map spreadNames sub)"
| "spreadNames (FragmentSpread nm) = [nm]"
| "spreadNames (InlineFragment sub) = []"

text \<open>
  No fragment reaches itself through fragment spreads: every fragment definition has a
  rank above the ranks of the defined fragments that its selection set spreads.
\<close>

definition acyclicFragments :: "(string \<Rightarrow> nat) \<Rightarrow> definitionNode list \<Rightarrow> bool" where
  "acyclicFragments rank defs =
     (\<forall>d\<in>set defs. \<forall>nm\<in>set (concat (map spreadNames (selectionSet d))).
        (case d of
           FragmentDefinition fnm body \<Rightarrow>
             fragmentNamed_spec defs nm = None \<or> rank nm < rank fnm
         | OperationDefinition opn onm vds body \<Rightarrow> True))"

text \<open>
  The names of the fields of a selection, also of those below it, are names of fields:
  none is \<open>__proto__\<close>, the property that an assignment does not define, and none
  starts with the dots of the key of a spread.
\<close>

fun plainNames :: "selection \<Rightarrow> bool" where
  "plainNames (Field nm args None) = (nm \<noteq> ''__proto__'' \<and> take 3 nm \<noteq> ''...'')"
| "plainNames (Field nm args (Some sub)) =
     (nm \<noteq> ''__proto__'' \<and> take 3 nm \<noteq> ''...'' \<and> (\<forall>sel\<in>set sub. plainNames sel))"
| "plainNames (FragmentSpread nm) = True"
| "plainNames (InlineFragment sub) = True"

section \<open>Example operations\<close>

text \<open>
  \<open>{ postCollection(order: [publishedAt_DESC], limit: 2) { items { title } } }\<close>,
  without variables.
\<close>

definition postCollectionOperation :: operation where
  "postCollectionOperation =
     \<lparr>query =
        \<lparr>definitions =
           [OperationDefinition ''query'' None (Some [])
              [Field ''postCollection''
                 (Some [Argument ''order'' (ListValue [EnumValue ''publishedAt_DESC'']),
                        Argument ''limit'' (IntValue ''2'')])
                 (Some [Field ''items'' (Some [])
                          (Some [Field ''title'' (Some []) None])])]],
         loc = True\<rparr>,
      operationName = None,
      variables = []\<rparr>"

text \<open>
  \<open>query Post($id: String, $preview: Boolean) { post(id: $id, preview: $preview) { title } }\<close>
  with the variables \<open>{id: "abc123", preview: true, locale: "en-US"}\<close>.
\<close>

definition postOperation :: operation where
  "postOperation =
     \<lparr>query =
        \<lparr>definitions =
           [OperationDefinition ''query'' (Some ''Post'') (Some [''id'', ''preview''])
              [Field ''post''
                 (Some [Argument ''id'' (Variable ''id''),
                        Argument ''preview'' (Variable ''preview'')])
                 (Some [Field ''title'' (Some []) None])]],
         loc = True\<rparr>,
      operationName = Some ''Post'',
      variables = [(''id'', JStr ''abc123''), (''preview'', JBool True),
                   (''locale'', JStr ''en-US'')]\<rparr>"


text \<open>
  \<open>query Posts($order: [String], $limit: Int) { postCollection(order: $order, limit: $limit) { items { title } } }\<close>
  with the variables \<open>{order: "title_ASC", limit: 5}\<close>: \<open>order\<close> is a string, not an
  array.
\<close>

definition orderStringOperation :: operation where
  "orderStringOperation =
     \<lparr>query =
        \<lparr>definitions =
           [OperationDefinition ''query'' (Some ''Posts'') (Some [''order'', ''limit''])
              [Field ''postCollection''
                 (Some [Argument ''order'' (Variable ''order''),
                        Argument ''limit'' (Variable ''limit'')])
                 (Some [Field ''items'' (Some [])
                          (Some [Field ''title'' (Some []) None])])]],
         loc = True\<rparr>,
      operationName = Some ''Posts'',
      variables = [(''order'', JStr ''title_ASC''), (''limit'', JNum 5)]\<rparr>"

text \<open>
  \<open>{ productCollectionItemCollection { items { title } } }\<close>: the collection of the
  content type \<open>productCollectionItem\<close>.
\<close>

definition productItemsOperation :: operation where
  "productItemsOperation =
     \<lparr>query =
        \<lparr>definitions =
           [OperationDefinition ''query'' None (Some [])
              [Field ''productCollectionItemCollection'' (Some [])
                 (Some [Field ''items'' (Some [])
                          (Some [Field ''title'' (Some []) None])])]],
         loc = True\<rparr>,
      operationName = None,
      variables = []\<rparr>"

text \<open>A document with a fragment definition only: \<open>fragment F on Post { title }\<close>.\<close>

definition fragmentOnlyOperation :: operation where
  "fragmentOnlyOperation =
     \<lparr>query =
        \<lparr>definitions = [FragmentDefinition ''F'' [Field ''title'' (Some []) None]],
         loc = True\<rparr>,
      operationName = None,
      variables = []\<rparr>"

text \<open>
  Collaborators for the examples: the client resolves with \<open>null\<close>, the parser returns
  the payload, and the evaluator rejects with the given error.
\<close>

definition failingEvaluation :: "jsval \<Rightarrow> (jsval, jsval) collaborators" where
  "failingEvaluation err =
     \<lparr>fetch = (\<lambda>call. Resolved JNull),
      graphqlParser = (\<lambda>rootKey payload sh. Inr payload),
      graphql = (\<lambda>doc parsed. Rejected err)\<rparr>"

text \<open>
  Two links: one made from a space and an access token, one made with a preview access
  token as well.
\<close>

definition deliveryLink :: link where
  "deliveryLink =
     ContentfulRestLink [(''space'', JStr ''s''), (''accessToken'', JStr ''t'')]
       [(''include'', JNum 10)]"

definition previewLink :: link where
  "previewLink =
     ContentfulRestLink
       [(''space'', JStr ''s''), (''accessToken'', JStr ''t''),
        (''previewAccessToken'', JStr ''p'')]
       [(''include'', JNum 10)]"

text \<open>
  \<open>query Posts($limit: Int, $titles: String) { postCollection(order: [publishedAt_DESC], skip: 4, limit: $limit, where: {title_in: $titles}) { items { title } } }\<close>
  with the variables \<open>{limit: 5, titles: "a,b", locale: "en-US"}\<close>: inline literals,
  a variable bound to an argument, a variable bound to an object field, and a variable
  that the operation does not declare.
\<close>

definition filteredPostsOperation :: operation where
  "filteredPostsOperation =
     \<lparr>query =
        \<lparr>definitions =
           [OperationDefinition ''query'' (Some ''Posts'') (Some [''limit'', ''titles''])
              [Field ''postCollection''
                 (Some [Argument ''order'' (ListValue [EnumValue ''publishedAt_DESC'']),
                        Argument ''skip'' (IntValue ''4''),
                        Argument ''limit'' (Variable ''limit''),
                        Argument ''where'' (ObjectValue [(''title_in'', Variable ''titles'')])])
                 (Some [Field ''items'' (Some [])
                          (Some [Field ''title'' (Some []) None])])]],
         loc = True\<rparr>,
      operationName = Some ''Posts'',
      variables = [(''limit'', JNum 5), (''titles'', JStr ''a,b''),
                   (''locale'', JStr ''en-US'')]\<rparr>"

text \<open>
  \<open>{ postCollection(order: $o) { items { title } } }\<close> with the variables
  \<open>{o: "title_ASC"}\<close>: the operation does not declare \<open>o\<close>, and its value is a
  string, not an array.
\<close>

definition undeclaredOrderOperation :: operation where
  "undeclaredOrderOperation =
     \<lparr>query =
        \<lparr>definitions =
           [OperationDefinition ''query'' None (Some [])
              [Field ''postCollection'' (Some [Argument ''order'' (Variable ''o'')])
                 (Some [Field ''items'' (Some [])
                          (Some [Field ''title'' (Some []) None])])]],
         loc = True\<rparr>,
      operationName = None,
      variables = [(''o'', JStr ''title_ASC'')]\<rparr>"

text \<open>
  \<open>fragment F on Post { ...F }\<close>: a fragment that spreads itself.
\<close>

definition selfSpreadDefinitions :: "definitionNode list" where
  "selfSpreadDefinitions =
     [OperationDefinition ''query'' (Some ''Q'') (Some [])
        [Field ''post'' (Some []) (Some [FragmentSpread ''F''])],
      FragmentDefinition ''F'' [FragmentSpread ''F'']]"

text \<open>
  The selections \<open>title ...Outer ...Missing\<close> in a document in which the fragment
  \<open>Outer\<close> spreads the fragment \<open>Inner\<close>, and a rank of the two fragments.
\<close>

definition nestedSelections :: "selection list" where
  "nestedSelections =
     [Field ''title'' (Some []) None, FragmentSpread ''Outer'', FragmentSpread ''Missing'']"

definition nestedDefinitions :: "definitionNode list" where
  "nestedDefinitions =
     [OperationDefinition ''query'' (Some ''Q'') (Some [])
        [Field ''post'' (Some []) (Some nestedSelections)],
      FragmentDefinition ''Outer''
        [Field ''author'' (Some []) (Some [FragmentSpread ''Inner''])],
      FragmentDefinition ''Inner'' [Field ''name'' (Some []) None]]"

definition nestedRank :: "string \<Rightarrow> nat" where
  "nestedRank nm = (if nm = ''Outer'' then 1 else 0)"

section \<open>Properties of the string functions\<close>

lemma startsWith_includesStr: "startsWith s p \<Longrightarrow> includesStr s p"
  by (cases s) (auto simp: startsWith_def)

lemma take_butlast_le: "n \<le> length (butlast xs) \<Longrightarrow> take n (butlast xs) = take n xs"
  by (auto simp: butlast_conv_take min_def split: if_splits)

text \<open>A string that does not contain the pattern is returned as it is.\<close>

lemma replace_absent: "\<not> includesStr t p \<Longrightarrow> replace t p r = t"
  by (induction t) auto

lemma replace_if_includes: "(if includesStr t p then replace t p r else t) = replace t p r"
  by (simp add: replace_absent)

text \<open>
  When the pattern occurs at the end of the string and nowhere before, removing its
  leftmost occurrence removes the suffix.
\<close>

lemma replace_trailing:
  "p \<noteq> [] \<Longrightarrow> endsWith t p \<Longrightarrow> \<not> includesStr (butlast t) p \<Longrightarrow>
   replace t p [] = take (length t - length p) t"
proof (induction t)
  case Nil
  then show ?case by (simp add: endsWith_def)
next
  case (Cons c cs)
  show ?case
  proof (cases "startsWith (c # cs) p")
    case True
    have "length (c # cs) \<le> length p"
    proof (rule ccontr)
      assume "\<not> length (c # cs) \<le> length p"
      then have "length p \<le> length (butlast (c # cs))" by (cases p) auto
      then have "take (length p) (butlast (c # cs)) = take (length p) (c # cs)"
        by (rule take_butlast_le)
      with True have "startsWith (butlast (c # cs)) p" by (simp add: startsWith_def)
      then have "includesStr (butlast (c # cs)) p" by (rule startsWith_includesStr)
      with Cons.prems show False by simp
    qed
    with Cons.prems(2) have "length (c # cs) = length p" by (simp add: endsWith_def)
    with True show ?thesis by simp
  next
    case False
    from Cons.prems(2) False have len: "length p \<le> length cs"
      by (auto simp: endsWith_def startsWith_def le_Suc_eq)
    with Cons.prems(2) have e: "endsWith cs p"
      by (auto simp: endsWith_def Suc_diff_le)
    from len Cons.prems(1) have "cs \<noteq> []" by auto
    with Cons.prems(3) have "\<not> includesStr (butlast cs) p" by simp
    with Cons.IH Cons.prems(1) e have "replace cs p [] = take (length cs - length p) cs" by simp
    with False len show ?thesis by (simp add: Suc_diff_le)
  qed
qed

lemma replace_trailing_spec:
  "p \<noteq> [] \<Longrightarrow> endsWith t p \<Longrightarrow> \<not> includesStr (butlast t) p \<Longrightarrow>
   replace t p [] = stripSuffix_spec t p"
  by (simp add: replace_trailing stripSuffix_spec_def)

section \<open>Search-key mapper: the suffix \<open>_not_in\<close>\<close>

text \<open>
  A name that ends in \<open>_not_in\<close> also ends in \<open>_in\<close>, and the test for \<open>_in\<close> comes
  first: the branch for \<open>_not_in\<close> is never taken, and no such name is mapped to
  \<open>fields.<base>[nin]\<close>.
\<close>

lemma getSearchKey_not_in_general:
  "getSearchKey (b @ ''_not_in'') = ''fields.'' @ replace (b @ ''_not_in'') ''_in'' [] @ ''[in]''"
  by (simp add: getSearchKey_def endsWith_def)

lemma getSearchKey_never_nin: "getSearchKey (b @ ''_not_in'') \<noteq> ''fields.'' @ b @ ''[nin]''"
proof
  assume "getSearchKey (b @ ''_not_in'') = ''fields.'' @ b @ ''[nin]''"
  then have "rev (replace (b @ ''_not_in'') ''_in'' [] @ ''[in]'') = rev (b @ ''[nin]'')"
    by (simp add: getSearchKey_not_in_general)
  then show False by simp
qed

text \<open>
  C1 (the code at the failing input). The search-key mapper is to resolve \<open>_not_in\<close>
  before \<open>_not\<close> and \<open>_in\<close>, so that \<open>title_not_in\<close> maps to \<open>fields.title[nin]\<close>.
  The source tests \<open>_in\<close> first: \<open>title_not_in\<close> is mapped to
  \<open>fields.title_not[in]\<close>, the result that the specification rules out.
\<close>

theorem getSearchKey_title_not_in:
  "getSearchKey ''title_not_in'' = ''fields.title_not[in]''"
  by (simp add: getSearchKey_def endsWith_def startsWith_def)

section \<open>Ordering normalizer: agreement with the specification\<close>

lemma orderSysDates_replace:
  "orderSysDates v =
     replace (replace v ''sys.firstPublishedAt'' ''sys.createdAt'') ''sys.publishedAt'' ''sys.updatedAt''"
  by (simp add: orderSysDates_def Let_def replace_if_includes)

lemma orderDirection_spec:
  assumes "\<not> includesStr (butlast t) ''.DESC''" and "\<not> includesStr (butlast t) ''.ASC''"
  shows "orderDirection t =
     (if endsWith t ''.DESC'' then ''-'' @ stripSuffix_spec t ''.DESC''
      else if endsWith t ''.ASC'' then stripSuffix_spec t ''.ASC'' else t)"
  using assms unfolding orderDirection_def
  by (simp add: replace_trailing_spec)

lemma orderPath_spec:
  "orderPath s =
     (let t1 = map (\<lambda>c. if c = CHR ''_'' then CHR ''.'' else c) s
      in if startsWith t1 ''sys.'' then t1 else ''fields.'' @ t1)"
  by (simp add: orderPath_def replace_underscores_def Let_def)

lemma getOrderValue_string:
  "s \<noteq> [] \<Longrightarrow> getOrderValue (JStr s) = JStr (orderSysDates (orderDirection (orderPath s)))"
  by (simp add: getOrderValue_def)

text \<open>
  C6 (amended). For every non-empty order expression in which, after the separators are
  replaced and the prefix is added, \<open>.DESC\<close> and \<open>.ASC\<close> occur at most as the trailing
  suffix, \<open>getOrderValue\<close> returns what the specification describes: every \<open>_\<close>
  replaced by \<open>.\<close>, \<open>fields.\<close> prepended unless the value starts with \<open>sys.\<close>, a
  trailing \<open>.DESC\<close> turned into a leading \<open>-\<close>, a trailing \<open>.ASC\<close> stripped, and the
  two legacy date fields renamed. The empty string and every value that is not a string
  are returned unchanged. \<open>field_DESC\<close> yields \<open>-fields.field\<close>, \<open>field_ASC\<close> yields
  \<open>fields.field\<close> and \<open>sys.publishedAt_DESC\<close> yields \<open>-sys.updatedAt\<close>.
\<close>

theorem getOrderValue_normalizes:
  "(s \<noteq> [] \<and> \<not> includesStr (butlast (orderPath s)) ''.DESC'' \<and>
      \<not> includesStr (butlast (orderPath s)) ''.ASC'' \<longrightarrow>
      getOrderValue (JStr s) = JStr (getOrderValue_spec s)) \<and>
   getOrderValue (JStr []) = JStr [] \<and>
   ((\<forall>t. v \<noteq> JStr t) \<longrightarrow> getOrderValue v = v) \<and>
   getOrderValue (JStr ''field_DESC'') = JStr ''-fields.field'' \<and>
   getOrderValue (JStr ''field_ASC'') = JStr ''fields.field'' \<and>
   getOrderValue (JStr ''sys.publishedAt_DESC'') = JStr ''-sys.updatedAt''"
proof -
  have general: "getOrderValue (JStr s) = JStr (getOrderValue_spec s)"
    if "s \<noteq> []" "\<not> includesStr (butlast (orderPath s)) ''.DESC''"
       "\<not> includesStr (butlast (orderPath s)) ''.ASC''"
  proof -
    have "getOrderValue_spec s =
        replace (replace (if endsWith (orderPath s) ''.DESC''
                          then ''-'' @ stripSuffix_spec (orderPath s) ''.DESC''
                          else if endsWith (orderPath s) ''.ASC''
                               then stripSuffix_spec (orderPath s) ''.ASC''
                               else orderPath s)
                   ''sys.firstPublishedAt'' ''sys.createdAt'')
          ''sys.publishedAt'' ''sys.updatedAt''"
      by (simp add: getOrderValue_spec_def orderPath_spec Let_def)
    with that show ?thesis
      by (simp add: getOrderValue_string orderSysDates_replace orderDirection_spec)
  qed
  have empty: "getOrderValue (JStr []) = JStr []"
    by (simp add: getOrderValue_def)
  have other: "getOrderValue v = v" if "\<forall>t. v \<noteq> JStr t"
    using that by (cases v) (simp_all add: getOrderValue_def)
  have ex1: "getOrderValue (JStr ''field_DESC'') = JStr ''-fields.field''"
    by (simp add: getOrderValue_def orderPath_def orderDirection_def orderSysDates_def
        replace_underscores_def startsWith_def endsWith_def)
  have ex2: "getOrderValue (JStr ''field_ASC'') = JStr ''fields.field''"
    by (simp add: getOrderValue_def orderPath_def orderDirection_def orderSysDates_def
        replace_underscores_def startsWith_def endsWith_def)
  have ex3: "getOrderValue (JStr ''sys.publishedAt_DESC'') = JStr ''-sys.updatedAt''"
    by (simp add: getOrderValue_def orderPath_def orderDirection_def orderSysDates_def
        replace_underscores_def startsWith_def endsWith_def)
  from general empty other ex1 ex2 ex3 show ?thesis by blast
qed

text \<open>
  Witness for C6: \<open>publishedAt_DESC\<close> satisfies the hypotheses and is normalized to
  \<open>-fields.publishedAt\<close>; the number \<open>7\<close> is not a string and is returned unchanged.
\<close>

theorem getOrderValue_normalizes_witness:
  "''publishedAt_DESC'' \<noteq> [] \<and>
   \<not> includesStr (butlast (orderPath ''publishedAt_DESC'')) ''.DESC'' \<and>
   \<not> includesStr (butlast (orderPath ''publishedAt_DESC'')) ''.ASC'' \<and>
   getOrderValue (JStr ''publishedAt_DESC'') = JStr (getOrderValue_spec ''publishedAt_DESC'') \<and>
   getOrderValue_spec ''publishedAt_DESC'' = ''-fields.publishedAt'' \<and>
   getOrderValue (JNum 7) = JNum 7"
proof -
  have h: "''publishedAt_DESC'' \<noteq> [] \<and>
     \<not> includesStr (butlast (orderPath ''publishedAt_DESC'')) ''.DESC'' \<and>
     \<not> includesStr (butlast (orderPath ''publishedAt_DESC'')) ''.ASC''"
    by (simp add: orderPath_def replace_underscores_def startsWith_def)
  have v: "getOrderValue_spec ''publishedAt_DESC'' = ''-fields.publishedAt''"
    by (simp add: getOrderValue_spec_def stripSuffix_spec_def startsWith_def endsWith_def)
  have n: "\<forall>t. JNum 7 \<noteq> JStr t" by simp
  from h v n getOrderValue_normalizes [of "''publishedAt_DESC''" "JNum 7"] show ?thesis
    by blast
qed

text \<open>
  Counterexample to C6 as stated ("for every order expression string"): the empty string
  is falsy and is returned as it is, where the described steps give \<open>fields.\<close>.
\<close>

theorem getOrderValue_empty_counterexample:
  "getOrderValue (JStr []) = JStr [] \<and> getOrderValue_spec [] = ''fields.''"
  by (simp add: getOrderValue_def getOrderValue_spec_def startsWith_def endsWith_def)

text \<open>
  Outside the hypotheses of the theorem the suffix is not what \<open>replace\<close> removes: it
  removes the leftmost occurrence, here the one that starts at the dot of the prefix.
\<close>

lemma getOrderValue_description:
  "getOrderValue (JStr ''DESCRIPTION_DESC'') = JStr ''-fieldsRIPTION.DESC''"
  by (simp add: getOrderValue_def orderPath_def orderDirection_def orderSysDates_def
      replace_underscores_def startsWith_def endsWith_def)

section \<open>Properties of objects\<close>

text \<open>Reads of the objects that the operations on objects build.\<close>

lemma map_of_ownEntries: "map_of (ownEntries obj) = map_of obj"
  by (simp add: ownEntries_def map_of_clearjunk)

lemma distinct_ownEntries: "distinct (map fst (ownEntries obj))"
  by (simp add: ownEntries_def)

lemma map_of_setProperty: "map_of (setProperty k v obj) = (map_of obj)(k \<mapsto> v)"
  by (simp add: setProperty_def update_conv')

lemma map_of_fold_setProperty:
  "distinct (map fst xs) \<Longrightarrow>
   map_of (fold (\<lambda>(k, v). setProperty k v) xs acc) = map_of acc ++ map_of xs"
proof (induction xs arbitrary: acc)
  case Nil
  then show ?case by simp
next
  case (Cons x xs)
  obtain k v where x: "x = (k, v)" by (cases x)
  from Cons.prems x have "k \<notin> dom (map_of xs)" by (auto simp: dom_map_of_conv_image_fst)
  then have a: "(map_of acc)(k \<mapsto> v) ++ map_of xs = map_of acc ++ map_of (x # xs)"
    unfolding x by (auto simp: map_add_def fun_eq_iff split: option.splits)
  have b: "map_of (fold (\<lambda>(k, v). setProperty k v) (x # xs) acc) =
      (map_of acc)(k \<mapsto> v) ++ map_of xs"
    using Cons x by (simp add: map_of_setProperty del: map_of.simps)
  show ?case by (rule trans [OF b a])
qed

lemma map_of_spread: "map_of (spread target source) = map_of target ++ map_of source"
  by (simp add: spread_def map_of_fold_setProperty distinct_ownEntries map_of_ownEntries)

lemma map_of_omit: "map_of (omit obj keys) = map_of obj |` (- set keys)"
proof -
  have "omit obj keys = AList.restrict (- set keys) (ownEntries obj)"
    by (simp add: omit_def AList.restrict_eq case_prod_beta)
  then show ?thesis by (simp add: restr_conv' map_of_ownEntries)
qed








lemma map_filter_skip: "List.map_filter id (xs @ None # ys) = List.map_filter id (xs @ ys)"
  by (induction xs) (simp_all split: option.splits)

lemma mergeEntries_skip: "mergeEntries (xs @ None # ys) = mergeEntries (xs @ ys)"
  by (simp add: mergeEntries_def map_filter_skip)

section \<open>The filter on the keys of the binding map\<close>

lemma error_is_TypeError: "(e::error) = TypeError"
  by (cases e)

lemma filterE_Inr:
  "filterE p xs = Inr ys \<Longrightarrow> ys = filter (\<lambda>x. p x = Inr True) xs"
proof (induction xs arbitrary: ys)
  case Nil
  then show ?case by simp
next
  case (Cons x xs)
  from Cons.prems obtain b zs where b: "p x = Inr b" and zs: "filterE p xs = Inr zs"
    and ys: "ys = (if b then x # zs else zs)"
    by (auto split: sum.splits)
  from Cons.IH [OF zs] b ys show ?case by auto
qed

lemma filterE_defined:
  "filterE p xs = Inr ys \<Longrightarrow> x \<in> set xs \<Longrightarrow> \<exists>b. p x = Inr b"
proof (induction xs arbitrary: ys)
  case Nil
  then show ?case by simp
next
  case (Cons y xs)
  from Cons.prems(1) obtain b zs where b: "p y = Inr b" and zs: "filterE p xs = Inr zs"
    by (auto split: sum.splits)
  show ?case
  proof (cases "x = y")
    case True
    with b show ?thesis by blast
  next
    case False
    with Cons.prems(2) have "x \<in> set xs" by simp
    with zs show ?thesis by (rule Cons.IH)
  qed
qed

lemma filterE_returns:
  "(\<And>x. x \<in> set xs \<Longrightarrow> p x = Inr (q x)) \<Longrightarrow> filterE p xs = Inr (filter q xs)"
  by (induction xs) simp_all

lemma isBoundKey_Inr:
  "isBoundKey variableMap vars k = Inr b \<Longrightarrow> b = (hasOwn vars k \<and> hasOwn variableMap k)"
  by (auto simp: isBoundKey_def hasOwnProperty_def split: sum.splits bool.splits if_splits)

text \<open>When the filter returns, it has kept the keys that both objects have.\<close>

lemma boundKeys_Inr:
  assumes "boundKeys variableMap vars = Inr keys"
  shows "keys = presentKeys variableMap vars"
proof -
  from assms have "keys = filter (\<lambda>k. isBoundKey variableMap vars k = Inr True)
      (objectKeys variableMap)"
    unfolding boundKeys_def by (rule filterE_Inr)
  moreover have "isBoundKey variableMap vars k = Inr True \<longleftrightarrow>
      hasOwn vars k \<and> hasOwn variableMap k" if "k \<in> set (objectKeys variableMap)" for k
  proof
    assume "isBoundKey variableMap vars k = Inr True"
    from isBoundKey_Inr [OF this] show "hasOwn vars k \<and> hasOwn variableMap k" by simp
  next
    assume h: "hasOwn vars k \<and> hasOwn variableMap k"
    from assms that obtain b where b: "isBoundKey variableMap vars k = Inr b"
      unfolding boundKeys_def by (blast dest: filterE_defined)
    from isBoundKey_Inr [OF b] h b show "isBoundKey variableMap vars k = Inr True" by simp
  qed
  ultimately show ?thesis
    unfolding presentKeys_def by (simp cong: filter_cong)
qed

text \<open>
  The filter returns when neither object has an own property \<open>hasOwnProperty\<close>.
\<close>

lemma boundKeys_returns:
  assumes "\<not> hasOwn vars ''hasOwnProperty''" and "\<not> hasOwn variableMap ''hasOwnProperty''"
  shows "boundKeys variableMap vars = Inr (presentKeys variableMap vars)"
  unfolding boundKeys_def presentKeys_def
  using assms
  by (intro filterE_returns) (simp add: isBoundKey_def hasOwnProperty_def split: bool.splits)

section \<open>Query-variable translator: partiality and layers\<close>

lemma parseQueryVariables_Inr:
  assumes "parseQueryVariables op = Inr out"
  shows "\<exists>variableMap defs d declared sel rest args.
           buildVariableMap op = Inr variableMap \<and>
           rootDefinitions (getRootQuery op) = Some defs \<and>
           find (\<lambda>d. definitionKind d = DefinitionKind_OperationDefinition) defs = Some d \<and>
           variableDefinitions d = Some declared \<and>
           selectionSet d = sel # rest \<and>
           selectionArguments sel = Some args \<and>
           out = spread (spread (spread [] (operationArguments args))
                           (operationQueries variableMap (variables op)))
                   (omit (variables op) declared)"
proof -
  from assms obtain variableMap defs d declared sel rest args keys where
    h: "buildVariableMap op = Inr variableMap"
      "rootDefinitions (getRootQuery op) = Some defs"
      "find (\<lambda>d. definitionKind d = DefinitionKind_OperationDefinition) defs = Some d"
      "variableDefinitions d = Some declared"
      "selectionSet d = sel # rest"
      "selectionArguments sel = Some args"
    and k: "boundKeys variableMap (variables op) = Inr keys"
    and out: "out = spread (spread (spread [] (operationArguments args))
                           (translateKeys variableMap (variables op) keys))
                   (omit (variables op) declared)"
    unfolding parseQueryVariables_def
    by (auto split: sum.splits option.splits list.splits)
  from boundKeys_Inr [OF k] out
  have "out = spread (spread (spread [] (operationArguments args))
                           (operationQueries variableMap (variables op)))
                   (omit (variables op) declared)"
    by (simp add: operationQueries_def)
  with h show ?thesis by blast
qed

lemma parseQueryVariables_Inl:
  "\<not> firstSelectionHasArguments op \<Longrightarrow> parseQueryVariables op = Inl TypeError"
  unfolding parseQueryVariables_def firstSelectionHasArguments_def
  by (auto split: sum.splits option.splits list.splits simp: error_is_TypeError)

text \<open>
  C10. The query-variable translator is partial: when the root query has no operation
  definition, or the first operation definition has no first selection with a list of
  arguments, \<open>parseQueryVariables\<close> throws and produces no parameter set; it returns a
  parameter set only for operations that have an operation definition whose first
  selection carries a list of arguments.
\<close>

theorem parseQueryVariables_partial:
  "(\<not> firstSelectionHasArguments op \<longrightarrow> parseQueryVariables op = Inl TypeError) \<and>
   (\<forall>params. parseQueryVariables op = Inr params \<longrightarrow> firstSelectionHasArguments op)"
proof -
  have "firstSelectionHasArguments op" if "parseQueryVariables op = Inr params" for params
  proof (rule ccontr)
    assume "\<not> firstSelectionHasArguments op"
    then have "parseQueryVariables op = Inl TypeError" by (rule parseQueryVariables_Inl)
    with that show False by simp
  qed
  then show ?thesis by (auto simp: parseQueryVariables_Inl)
qed

text \<open>
  Witness for C10: a document with a fragment definition only makes the translator throw;
  the operation \<open>postCollection\<close> satisfies the precondition and is translated.
\<close>

theorem parseQueryVariables_partial_witness:
  "\<not> firstSelectionHasArguments fragmentOnlyOperation \<and>
   parseQueryVariables fragmentOnlyOperation = Inl TypeError \<and>
   parseQueryVariables postCollectionOperation =
     Inr [(''order'', JStr ''-fields.publishedAt''), (''limit'', JStr ''2'')] \<and>
   firstSelectionHasArguments postCollectionOperation"
proof -
  have a: "\<not> firstSelectionHasArguments fragmentOnlyOperation"
    by (simp add: firstSelectionHasArguments_def fragmentOnlyOperation_def getRootQuery_def
        DefinitionKind_OperationDefinition_def)
  have b: "parseQueryVariables postCollectionOperation =
     Inr [(''order'', JStr ''-fields.publishedAt''), (''limit'', JStr ''2'')]"
    by code_simp
  from a b parseQueryVariables_partial [of fragmentOnlyOperation]
    parseQueryVariables_partial [of postCollectionOperation]
  show ?thesis by blast
qed

section \<open>Query-variable translator: the three layers\<close>

text \<open>The merge of a list of entries reads as the list does, a later entry first.\<close>

lemma map_of_fold_entries:
  "map_of (fold (\<lambda>cur acc. spread acc [cur]) es acc) = map_of acc ++ map_of (rev es)"
proof (induction es arbitrary: acc)
  case Nil
  show ?case by simp
next
  case (Cons e es)
  have "map_of (fold (\<lambda>cur acc. spread acc [cur]) (e # es) acc) =
      map_of (spread acc [e]) ++ map_of (rev es)"
    using Cons.IH [of "spread acc [e]"] by simp
  also have "\<dots> = map_of acc ++ (map_of [e] ++ map_of (rev es))"
    by (simp only: map_of_spread map_add_assoc)
  also have "map_of [e] ++ map_of (rev es) = map_of (rev (e # es))"
    by (simp only: rev.simps map_of_append)
  finally show ?case .
qed

lemma map_of_mergeEntries:
  "map_of (mergeEntries items) = map_of (rev (List.map_filter id items))"
  by (simp add: mergeEntries_def map_of_fold_entries)

lemma map_filter_id_Nil: "List.map_filter id [] = []"
  by simp

lemma map_filter_id_None: "List.map_filter id (None # xs) = List.map_filter id xs"
  by simp

lemma map_filter_id_Some: "List.map_filter id (Some x # xs) = x # List.map_filter id xs"
  by simp

lemma map_of_rev_Cons: "map_of (rev (e # es)) = [fst e \<mapsto> snd e] ++ map_of (rev es)"
proof -
  have "map_of (rev (e # es)) = map_of [e] ++ map_of (rev es)"
    by (simp only: rev.simps map_of_append)
  moreover have "map_of [e] = [fst e \<mapsto> snd e]" by (cases e) simp
  ultimately show ?thesis by simp
qed

text \<open>Layer 1: the inline arguments of the source are those of the specification.\<close>

lemma operationArgument_spec:
  "operationArgument arg =
     (case inlineLiteral_spec (argumentName arg) (argumentValue arg) of
        None \<Rightarrow> None
      | Some v \<Rightarrow> if argumentName arg \<noteq> [] \<and> truthy v then Some (argumentName arg, v) else None)"
  by (cases "argumentValue arg") (simp_all add: operationArgument_def Let_def)

lemma operationArguments_spec: "map_of (operationArguments args) = inlineArguments_spec args"
proof -
  have "map_of (rev (List.map_filter id (map operationArgument args))) =
      inlineArguments_spec args"
  proof (induction args)
    case Nil
    show ?case by (simp add: map_filter_id_Nil)
  next
    case (Cons arg args)
    show ?case
    proof (cases "operationArgument arg")
      case None
      moreover from None have "inlineArguments_spec (arg # args) = inlineArguments_spec args"
        by (auto simp: operationArgument_spec split: option.splits if_splits)
      ultimately show ?thesis using Cons.IH by (simp add: map_filter_id_None)
    next
      case (Some e)
      then obtain v where v: "inlineLiteral_spec (argumentName arg) (argumentValue arg) = Some v"
        and ok: "argumentName arg \<noteq> [] \<and> truthy v" and e: "e = (argumentName arg, v)"
        by (auto simp: operationArgument_spec split: option.splits if_splits)
      from Some have "List.map_filter id (map operationArgument (arg # args)) =
          e # List.map_filter id (map operationArgument args)"
        by (simp add: map_filter_id_Some)
      then have "map_of (rev (List.map_filter id (map operationArgument (arg # args)))) =
          [fst e \<mapsto> snd e] ++ map_of (rev (List.map_filter id (map operationArgument args)))"
        by (simp only: map_of_rev_Cons)
      also have "\<dots> = [fst e \<mapsto> snd e] ++ inlineArguments_spec args"
        by (simp only: Cons.IH)
      also have "\<dots> = inlineArguments_spec (arg # args)"
        using v ok e by simp
      finally show ?thesis .
    qed
  qed
  then show ?thesis by (simp only: operationArguments_def map_of_mergeEntries)
qed

text \<open>Layer 2: one variable that the binding map and the runtime variables have.\<close>

lemma tryTranslateVariable_spec:
  assumes "map_of variableMap k = Some b" and "map_of vars k = Some v"
  shows "tryTranslateVariable variableMap vars k = boundVariable_spec b v"
proof -
  from assms(2) have g: "getProperty vars k = v" by (simp add: getProperty_def)
  show ?thesis
    unfolding tryTranslateVariable_def translateVariable_def boundVariable_spec_def
      assms(1) g VariableKind_Argument_def VariableKind_ObjectField_def
      contentfulReservedParameters_def
    by (cases v) auto
qed

lemma translateKeys_spec:
  assumes "\<forall>e\<in>set es. map_of variableMap (fst e) = Some (snd e)"
  shows "map_of (rev (List.map_filter id
            (map (tryTranslateVariable variableMap vars)
               (filter (\<lambda>k. hasOwn vars k \<and> hasOwn variableMap k) (map fst es))))) =
         boundVariables_spec es (map_of vars)"
  using assms
proof (induction es)
  case Nil
  show ?case by (simp add: map_filter_id_Nil)
next
  case (Cons e es)
  from Cons.prems have b: "map_of variableMap (fst e) = Some (snd e)" by simp
  from Cons.prems have "\<forall>e\<in>set es. map_of variableMap (fst e) = Some (snd e)" by simp
  then have IH: "map_of (rev (List.map_filter id
            (map (tryTranslateVariable variableMap vars)
               (filter (\<lambda>k. hasOwn vars k \<and> hasOwn variableMap k) (map fst es))))) =
         boundVariables_spec es (map_of vars)"
    by (rule Cons.IH)
  from b have own: "hasOwn variableMap (fst e)" by (simp add: hasOwn_def)
  show ?case
  proof (cases "map_of vars (fst e)")
    case None
    then have "\<not> hasOwn vars (fst e)" by (simp add: hasOwn_def)
    then have "filter (\<lambda>k. hasOwn vars k \<and> hasOwn variableMap k) (map fst (e # es)) =
        filter (\<lambda>k. hasOwn vars k \<and> hasOwn variableMap k) (map fst es)"
      by simp
    moreover from None have "boundVariables_spec (e # es) (map_of vars) =
        boundVariables_spec es (map_of vars)"
      by simp
    ultimately show ?thesis using IH by (simp only:)
  next
    case (Some v)
    then have present: "hasOwn vars (fst e)" by (simp add: hasOwn_def)
    have t: "tryTranslateVariable variableMap vars (fst e) = boundVariable_spec (snd e) v"
      using b Some by (rule tryTranslateVariable_spec)
    from present own
    have keys: "filter (\<lambda>k. hasOwn vars k \<and> hasOwn variableMap k) (map fst (e # es)) =
        fst e # filter (\<lambda>k. hasOwn vars k \<and> hasOwn variableMap k) (map fst es)"
      by simp
    let ?rest = "List.map_filter id
            (map (tryTranslateVariable variableMap vars)
               (filter (\<lambda>k. hasOwn vars k \<and> hasOwn variableMap k) (map fst es)))"
    show ?thesis
    proof (cases "boundVariable_spec (snd e) v")
      case None
      with t have "List.map_filter id
            (map (tryTranslateVariable variableMap vars)
               (filter (\<lambda>k. hasOwn vars k \<and> hasOwn variableMap k) (map fst (e # es)))) =
          ?rest"
        unfolding keys by (simp only: list.map map_filter_id_None)
      moreover from None \<open>map_of vars (fst e) = Some v\<close>
      have "boundVariables_spec (e # es) (map_of vars) = boundVariables_spec es (map_of vars)"
        by simp
      ultimately show ?thesis using IH by (simp only:)
    next
      case (Some kv)
      with t have "List.map_filter id
            (map (tryTranslateVariable variableMap vars)
               (filter (\<lambda>k. hasOwn vars k \<and> hasOwn variableMap k) (map fst (e # es)))) =
          kv # ?rest"
        unfolding keys by (simp only: list.map map_filter_id_Some)
      then have "map_of (rev (List.map_filter id
            (map (tryTranslateVariable variableMap vars)
               (filter (\<lambda>k. hasOwn vars k \<and> hasOwn variableMap k) (map fst (e # es)))))) =
          [fst kv \<mapsto> snd kv] ++ map_of (rev ?rest)"
        by (simp only: map_of_rev_Cons)
      also have "\<dots> = [fst kv \<mapsto> snd kv] ++ boundVariables_spec es (map_of vars)"
        by (simp only: IH)
      also have "\<dots> = boundVariables_spec (e # es) (map_of vars)"
        using Some \<open>map_of vars (fst e) = Some v\<close> by simp
      finally show ?thesis .
    qed
  qed
qed

lemma ownEntries_lookup: "\<forall>e\<in>set (ownEntries obj). map_of obj (fst e) = Some (snd e)"
proof
  fix e assume "e \<in> set (ownEntries obj)"
  then have "(fst e, snd e) \<in> set (ownEntries obj)" by simp
  with distinct_ownEntries [of obj] have "map_of (ownEntries obj) (fst e) = Some (snd e)"
    by (simp only: map_of_eq_Some_iff)
  then show "map_of obj (fst e) = Some (snd e)" by (simp only: map_of_ownEntries)
qed

lemma operationQueries_spec:
  "map_of (operationQueries variableMap vars) =
     boundVariables_spec (ownEntries variableMap) (map_of vars)"
  unfolding operationQueries_def translateKeys_def presentKeys_def objectKeys_def
    map_of_mergeEntries
  by (rule translateKeys_spec [OF ownEntries_lookup])

lemma omit_spec: "map_of (omit vars declared) = passthrough_spec vars declared"
  by (auto simp: map_of_omit passthrough_spec_def restrict_map_def fun_eq_iff)

text \<open>
  C4. Whenever the query-variable translator has an output, the output is, as a mapping,
  the shallow merge, later layers overriding earlier ones, of (1) the inline literal
  arguments of the first selection of the first operation definition of the root query,
  evaluated as the specification describes, (2) the translation of the variables that
  the binding map and the runtime variables both have, as the specification describes
  it, and (3) the runtime variables without the names that the operation declares.
\<close>

theorem parseQueryVariables_layers:
  assumes "parseQueryVariables op = Inr params"
  shows "\<exists>variableMap defs d declared sel rest args.
           buildVariableMap op = Inr variableMap \<and>
           rootDefinitions (getRootQuery op) = Some defs \<and>
           find (\<lambda>d. definitionKind d = DefinitionKind_OperationDefinition) defs = Some d \<and>
           variableDefinitions d = Some declared \<and>
           selectionSet d = sel # rest \<and>
           selectionArguments sel = Some args \<and>
           map_of params =
             inlineArguments_spec args ++
             boundVariables_spec (ownEntries variableMap) (map_of (variables op)) ++
             passthrough_spec (variables op) declared"
proof -
  from parseQueryVariables_Inr [OF assms] obtain variableMap defs d declared sel rest args
    where h: "buildVariableMap op = Inr variableMap"
      "rootDefinitions (getRootQuery op) = Some defs"
      "find (\<lambda>d. definitionKind d = DefinitionKind_OperationDefinition) defs = Some d"
      "variableDefinitions d = Some declared"
      "selectionSet d = sel # rest"
      "selectionArguments sel = Some args"
      and out: "params = spread (spread (spread [] (operationArguments args))
                           (operationQueries variableMap (variables op)))
                   (omit (variables op) declared)"
    by blast
  from out have "map_of params =
             inlineArguments_spec args ++
             boundVariables_spec (ownEntries variableMap) (map_of (variables op)) ++
             passthrough_spec (variables op) declared"
    by (simp add: map_of_spread operationArguments_spec operationQueries_spec omit_spec)
  with h show ?thesis by blast
qed

text \<open>
  Witness for C4: in the operation \<open>Posts\<close> layer 1 gives \<open>order\<close>, \<open>skip\<close> and
  \<open>limit\<close> (the name of the variable), layer 2 overrides \<open>limit\<close> by the runtime
  value and adds the filter on \<open>title\<close>, and layer 3 adds the undeclared \<open>locale\<close>.
\<close>

theorem parseQueryVariables_layers_witness:
  "parseQueryVariables filteredPostsOperation =
     Inr [(''order'', JStr ''-fields.publishedAt''), (''skip'', JStr ''4''),
          (''limit'', JNum 5), (''fields.title[in]'', JStr ''a,b''),
          (''locale'', JStr ''en-US'')] \<and>
   map_of [(''order'', JStr ''-fields.publishedAt''), (''skip'', JStr ''4''),
           (''limit'', JNum 5), (''fields.title[in]'', JStr ''a,b''),
           (''locale'', JStr ''en-US'')] =
     inlineArguments_spec
       [Argument ''order'' (ListValue [EnumValue ''publishedAt_DESC'']),
        Argument ''skip'' (IntValue ''4''),
        Argument ''limit'' (Variable ''limit''),
        Argument ''where'' (ObjectValue [(''title_in'', Variable ''titles'')])] ++
     boundVariables_spec
       [(''limit'', \<lparr>kind = ''Argument'', field = ''limit''\<rparr>),
        (''titles'', \<lparr>kind = ''ObjectField'', field = ''title_in''\<rparr>)]
       (map_of (variables filteredPostsOperation)) ++
     passthrough_spec (variables filteredPostsOperation) [''limit'', ''titles''] \<and>
   inlineArguments_spec
       [Argument ''order'' (ListValue [EnumValue ''publishedAt_DESC'']),
        Argument ''skip'' (IntValue ''4''),
        Argument ''limit'' (Variable ''limit''),
        Argument ''where'' (ObjectValue [(''title_in'', Variable ''titles'')])] =
     [''order'' \<mapsto> JStr ''-fields.publishedAt'', ''skip'' \<mapsto> JStr ''4'',
      ''limit'' \<mapsto> JStr ''limit''] \<and>
   boundVariables_spec
       [(''limit'', \<lparr>kind = ''Argument'', field = ''limit''\<rparr>),
        (''titles'', \<lparr>kind = ''ObjectField'', field = ''title_in''\<rparr>)]
       (map_of (variables filteredPostsOperation)) =
     [''limit'' \<mapsto> JNum 5, ''fields.title[in]'' \<mapsto> JStr ''a,b''] \<and>
   passthrough_spec (variables filteredPostsOperation) [''limit'', ''titles''] =
     [''locale'' \<mapsto> JStr ''en-US'']"
proof -
  let ?args = "[Argument ''order'' (ListValue [EnumValue ''publishedAt_DESC'']),
        Argument ''skip'' (IntValue ''4''),
        Argument ''limit'' (Variable ''limit''),
        Argument ''where'' (ObjectValue [(''title_in'', Variable ''titles'')])]"
  let ?vm = "[(''limit'', \<lparr>kind = ''Argument'', field = ''limit''\<rparr>),
        (''titles'', \<lparr>kind = ''ObjectField'', field = ''title_in''\<rparr>)]"
  let ?sel = "Field ''postCollection'' (Some ?args)
                 (Some [Field ''items'' (Some [])
                          (Some [Field ''title'' (Some []) None])])"
  let ?d = "OperationDefinition ''query'' (Some ''Posts'') (Some [''limit'', ''titles'']) [?sel]"
  have out: "parseQueryVariables filteredPostsOperation =
     Inr [(''order'', JStr ''-fields.publishedAt''), (''skip'', JStr ''4''),
          (''limit'', JNum 5), (''fields.title[in]'', JStr ''a,b''),
          (''locale'', JStr ''en-US'')]"
    by code_simp
  have vm: "buildVariableMap filteredPostsOperation = Inr ?vm" by code_simp
  have defs: "rootDefinitions (getRootQuery filteredPostsOperation) = Some [?d]" by code_simp
  have d: "find (\<lambda>d. definitionKind d = DefinitionKind_OperationDefinition) [?d] = Some ?d"
    by code_simp
  have own: "ownEntries ?vm = ?vm" by code_simp
  from parseQueryVariables_layers [OF out] obtain variableMap defs d declared sel rest args
    where h: "buildVariableMap filteredPostsOperation = Inr variableMap"
      "rootDefinitions (getRootQuery filteredPostsOperation) = Some defs"
      "find (\<lambda>d. definitionKind d = DefinitionKind_OperationDefinition) defs = Some d"
      "variableDefinitions d = Some declared"
      "selectionSet d = sel # rest"
      "selectionArguments sel = Some args"
      and m: "map_of [(''order'', JStr ''-fields.publishedAt''), (''skip'', JStr ''4''),
           (''limit'', JNum 5), (''fields.title[in]'', JStr ''a,b''),
           (''locale'', JStr ''en-US'')] =
             inlineArguments_spec args ++
             boundVariables_spec (ownEntries variableMap)
               (map_of (variables filteredPostsOperation)) ++
             passthrough_spec (variables filteredPostsOperation) declared"
    by blast
  from h(1) vm have 1: "variableMap = ?vm" by simp
  from h(2) defs have "defs = [?d]" by simp
  with h(3) d have 2: "d = ?d" by simp
  with h(4) have 3: "declared = [''limit'', ''titles'']" by simp
  from 2 h(5) have "sel = ?sel" by simp
  with h(6) have 4: "args = ?args" by simp
  have merge: "map_of [(''order'', JStr ''-fields.publishedAt''), (''skip'', JStr ''4''),
           (''limit'', JNum 5), (''fields.title[in]'', JStr ''a,b''),
           (''locale'', JStr ''en-US'')] =
     inlineArguments_spec ?args ++
     boundVariables_spec ?vm (map_of (variables filteredPostsOperation)) ++
     passthrough_spec (variables filteredPostsOperation) [''limit'', ''titles'']"
    using m unfolding 1 3 4 own .
  have o: "getOrderValue (JStr ''publishedAt_DESC'') = JStr ''-fields.publishedAt''"
    by code_simp
  have k: "getSearchKey ''title_in'' = ''fields.title[in]''" by code_simp
  have l1: "inlineArguments_spec ?args =
     [''order'' \<mapsto> JStr ''-fields.publishedAt'', ''skip'' \<mapsto> JStr ''4'',
      ''limit'' \<mapsto> JStr ''limit'']"
    by (simp add: join_def o)
  have l2: "boundVariables_spec ?vm (map_of (variables filteredPostsOperation)) =
     [''limit'' \<mapsto> JNum 5, ''fields.title[in]'' \<mapsto> JStr ''a,b'']"
    by (simp add: filteredPostsOperation_def boundVariable_spec_def k)
  have l3: "passthrough_spec (variables filteredPostsOperation) [''limit'', ''titles''] =
     [''locale'' \<mapsto> JStr ''en-US'']"
    by (auto simp: fun_eq_iff passthrough_spec_def filteredPostsOperation_def)
  from out merge l1 l2 l3 show ?thesis by (intro conjI)
qed

section \<open>Query-variable translator: the variable bound to \<open>preview\<close>\<close>





lemma truthy_hasOwn: "truthy (getProperty vars k) \<Longrightarrow> hasOwn vars k"
  by (auto simp: getProperty_def hasOwn_def split: option.splits)





section \<open>Query-variable translator: an exception in one variable\<close>

text \<open>
  The translator returns when the operation has the parts that it reads and no call of
  \<open>hasOwnProperty\<close> throws.
\<close>

lemma parseQueryVariables_returns:
  assumes "buildVariableMap op = Inr variableMap"
    and "rootDefinitions (getRootQuery op) = Some defs"
    and "find (\<lambda>d. definitionKind d = DefinitionKind_OperationDefinition) defs = Some d"
    and "variableDefinitions d = Some declared"
    and "selectionSet d = sel # rest"
    and "selectionArguments sel = Some args"
    and "\<not> hasOwn (variables op) ''hasOwnProperty''"
    and "\<not> hasOwn variableMap ''hasOwnProperty''"
  shows "parseQueryVariables op =
     Inr (spread (spread (spread [] (operationArguments args))
                    (operationQueries variableMap (variables op)))
            (omit (variables op) declared))"
  using assms(1-6) boundKeys_returns [OF assms(7,8)]
  by (simp add: parseQueryVariables_def operationQueries_def)

lemma tryTranslateVariable_raises:
  "translateVariable variableMap vars k = Inl err \<Longrightarrow>
   tryTranslateVariable variableMap vars k = None"
  by (simp add: tryTranslateVariable_def)

text \<open>A binding that is translated to nothing can be left out of layer 2.\<close>

lemma boundVariables_spec_skip:
  assumes "\<forall>e\<in>set es. fst e = k \<longrightarrow> (\<forall>v. vars k = Some v \<longrightarrow> boundVariable_spec (snd e) v = None)"
  shows "boundVariables_spec (filter (\<lambda>e. fst e \<noteq> k) es) vars = boundVariables_spec es vars"
  using assms
proof (induction es)
  case Nil
  show ?case by simp
next
  case (Cons e es)
  from Cons.prems
  have "\<forall>e\<in>set es. fst e = k \<longrightarrow> (\<forall>v. vars k = Some v \<longrightarrow> boundVariable_spec (snd e) v = None)"
    by simp
  then have IH: "boundVariables_spec (filter (\<lambda>e. fst e \<noteq> k) es) vars =
      boundVariables_spec es vars"
    by (rule Cons.IH)
  show ?case
  proof (cases "fst e = k")
    case True
    with Cons.prems have "\<forall>v. vars k = Some v \<longrightarrow> boundVariable_spec (snd e) v = None"
      by simp
    with True have "boundVariables_spec (e # es) vars = boundVariables_spec es vars"
      by (simp split: option.splits)
    with True IH show ?thesis by simp
  next
    case False
    with IH show ?thesis by (simp split: option.splits)
  qed
qed

text \<open>
  C8 (amended). For every operation that has the parts the translator reads and whose
  binding map and runtime variables have no own property \<open>hasOwnProperty\<close>, and for
  every variable of the binding map that the runtime variables have: if the translation
  of that variable raises an exception, the exception is caught and the translator
  returns; the variable contributes no entry to layer 2, the translation of the bound
  variables, which is that of the binding map without this variable; and the output is
  the merge of layer 1, of this layer 2 and of layer 3. (Layers 1 and 3 are as for any
  other operation: an inline argument that references the variable contributes its
  entry, and the variable is passed through under its own name when the operation does
  not declare it.)
\<close>

theorem translation_exception_isolated:
  assumes "buildVariableMap op = Inr variableMap"
    and "rootDefinitions (getRootQuery op) = Some defs"
    and "find (\<lambda>d. definitionKind d = DefinitionKind_OperationDefinition) defs = Some d"
    and "variableDefinitions d = Some declared"
    and "selectionSet d = sel # rest"
    and "selectionArguments sel = Some args"
    and "\<not> hasOwn (variables op) ''hasOwnProperty''"
    and "\<not> hasOwn variableMap ''hasOwnProperty''"
    and "hasOwn variableMap k"
    and "hasOwn (variables op) k"
    and "translateVariable variableMap (variables op) k = Inl err"
  shows "\<exists>params. parseQueryVariables op = Inr params \<and>
           map_of params =
             inlineArguments_spec args ++
             boundVariables_spec (filter (\<lambda>e. fst e \<noteq> k) (ownEntries variableMap))
               (map_of (variables op)) ++
             passthrough_spec (variables op) declared"
proof -
  let ?params = "spread (spread (spread [] (operationArguments args))
                    (operationQueries variableMap (variables op)))
            (omit (variables op) declared)"
  have ret: "parseQueryVariables op = Inr ?params"
    by (rule parseQueryVariables_returns [OF assms(1-8)])
  have none: "tryTranslateVariable variableMap (variables op) k = None"
    using assms(11) by (rule tryTranslateVariable_raises)
  have "\<forall>e\<in>set (ownEntries variableMap). fst e = k \<longrightarrow>
      (\<forall>v. map_of (variables op) k = Some v \<longrightarrow> boundVariable_spec (snd e) v = None)"
  proof (intro ballI impI allI)
    fix e v
    assume e: "e \<in> set (ownEntries variableMap)" and k: "fst e = k"
      and v: "map_of (variables op) k = Some v"
    from e ownEntries_lookup have "map_of variableMap (fst e) = Some (snd e)" by blast
    with k have "map_of variableMap k = Some (snd e)" by simp
    from tryTranslateVariable_spec [OF this v] none
    show "boundVariable_spec (snd e) v = None" by simp
  qed
  then have skip: "boundVariables_spec (filter (\<lambda>e. fst e \<noteq> k) (ownEntries variableMap))
        (map_of (variables op)) =
      boundVariables_spec (ownEntries variableMap) (map_of (variables op))"
    by (rule boundVariables_spec_skip)
  have "map_of ?params =
      inlineArguments_spec args ++
      boundVariables_spec (ownEntries variableMap) (map_of (variables op)) ++
      passthrough_spec (variables op) declared"
    by (simp add: map_of_spread operationArguments_spec operationQueries_spec omit_spec)
  with skip ret show ?thesis by simp
qed

text \<open>
  Witness for C8: \<open>order\<close> is bound to the string \<open>title_ASC\<close>, which has no method
  \<open>map\<close>. The translator returns; layer 2 is the translation of \<open>limit\<close> alone;
  \<open>order\<close> keeps the value of layer 1, the name of the variable.
\<close>

theorem translation_exception_isolated_witness:
  "translateVariable
     [(''order'', \<lparr>kind = ''Argument'', field = ''order''\<rparr>),
      (''limit'', \<lparr>kind = ''Argument'', field = ''limit''\<rparr>)]
     (variables orderStringOperation) ''order'' = Inl TypeError \<and>
   parseQueryVariables orderStringOperation =
     Inr [(''order'', JStr ''order''), (''limit'', JNum 5)] \<and>
   map_of [(''order'', JStr ''order''), (''limit'', JNum 5)] =
     inlineArguments_spec
       [Argument ''order'' (Variable ''order''), Argument ''limit'' (Variable ''limit'')] ++
     boundVariables_spec [(''limit'', \<lparr>kind = ''Argument'', field = ''limit''\<rparr>)]
       (map_of (variables orderStringOperation)) ++
     passthrough_spec (variables orderStringOperation) [''order'', ''limit''] \<and>
   boundVariables_spec [(''limit'', \<lparr>kind = ''Argument'', field = ''limit''\<rparr>)]
       (map_of (variables orderStringOperation)) = [''limit'' \<mapsto> JNum 5]"
proof -
  let ?vm = "[(''order'', \<lparr>kind = ''Argument'', field = ''order''\<rparr>),
              (''limit'', \<lparr>kind = ''Argument'', field = ''limit''\<rparr>)]"
  let ?args = "[Argument ''order'' (Variable ''order''), Argument ''limit'' (Variable ''limit'')]"
  let ?sel = "Field ''postCollection'' (Some ?args)
                 (Some [Field ''items'' (Some [])
                          (Some [Field ''title'' (Some []) None])])"
  let ?d = "OperationDefinition ''query'' (Some ''Posts'') (Some [''order'', ''limit'']) [?sel]"
  have h1: "buildVariableMap orderStringOperation = Inr ?vm" by code_simp
  have h2: "rootDefinitions (getRootQuery orderStringOperation) = Some [?d]" by code_simp
  have h3: "find (\<lambda>d. definitionKind d = DefinitionKind_OperationDefinition) [?d] = Some ?d"
    by code_simp
  have h4: "variableDefinitions ?d = Some [''order'', ''limit'']" by simp
  have h5: "selectionSet ?d = ?sel # []" by simp
  have h6: "selectionArguments ?sel = Some ?args" by simp
  have h7: "\<not> hasOwn (variables orderStringOperation) ''hasOwnProperty''"
    by (simp add: hasOwn_def orderStringOperation_def)
  have h8: "\<not> hasOwn ?vm ''hasOwnProperty''" by (simp add: hasOwn_def)
  have h9: "hasOwn ?vm ''order''" by (simp add: hasOwn_def)
  have h10: "hasOwn (variables orderStringOperation) ''order''"
    by (simp add: hasOwn_def orderStringOperation_def)
  have h11: "translateVariable ?vm (variables orderStringOperation) ''order'' = Inl TypeError"
    by code_simp
  have out: "parseQueryVariables orderStringOperation =
     Inr [(''order'', JStr ''order''), (''limit'', JNum 5)]"
    by code_simp
  have others: "filter (\<lambda>e. fst e \<noteq> ''order'') (ownEntries ?vm) =
      [(''limit'', \<lparr>kind = ''Argument'', field = ''limit''\<rparr>)]"
    by (simp add: ownEntries_def)
  have l2: "boundVariables_spec [(''limit'', \<lparr>kind = ''Argument'', field = ''limit''\<rparr>)]
       (map_of (variables orderStringOperation)) = [''limit'' \<mapsto> JNum 5]"
    by (simp add: orderStringOperation_def boundVariable_spec_def)
  from translation_exception_isolated [OF h1 h2 h3 h4 h5 h6 h7 h8 h9 h10 h11]
  have "map_of [(''order'', JStr ''order''), (''limit'', JNum 5)] =
     inlineArguments_spec ?args ++
     boundVariables_spec [(''limit'', \<lparr>kind = ''Argument'', field = ''limit''\<rparr>)]
       (map_of (variables orderStringOperation)) ++
     passthrough_spec (variables orderStringOperation) [''order'', ''limit'']"
    unfolding out others by simp
  with h11 out l2 show ?thesis by (intro conjI)
qed

text \<open>
  Counterexample to C8 as stated ("that variable contributes no key to the translator's
  output"): the operation does not declare \<open>o\<close>, which is bound to the argument
  \<open>order\<close> and whose value is a string. The translation of \<open>o\<close> raises an exception,
  and the output has the key \<open>o\<close> with the value of the variable (layer 3), beside the
  key \<open>order\<close> with the name of the variable (layer 1).
\<close>

theorem undeclared_variable_counterexample:
  "buildVariableMap undeclaredOrderOperation =
     Inr [(''o'', \<lparr>kind = ''Argument'', field = ''order''\<rparr>)] \<and>
   translateVariable [(''o'', \<lparr>kind = ''Argument'', field = ''order''\<rparr>)]
     (variables undeclaredOrderOperation) ''o'' = Inl TypeError \<and>
   parseQueryVariables undeclaredOrderOperation =
     Inr [(''order'', JStr ''o''), (''o'', JStr ''title_ASC'')] \<and>
   getProperty [(''order'', JStr ''o''), (''o'', JStr ''title_ASC'')] ''o'' = JStr ''title_ASC''"
  by code_simp

section \<open>Request orchestrator: the client of the call\<close>

lemma usePreview_returns:
  "\<not> hasOwn params ''hasOwnProperty'' \<Longrightarrow>
   usePreview l params =
     Inr (previewClient l \<noteq> None \<and> truthy (getProperty params ''preview''))"
  by (auto simp: usePreview_def hasOwnProperty_def truthy_hasOwn)

lemma queryMethodFor_returns:
  "\<not> hasOwn params ''hasOwnProperty'' \<Longrightarrow>
   queryMethodFor params = Inr (if hasOwn params ''id'' then ''getEntry'' else ''getEntries'')"
  by (simp add: queryMethodFor_def hasOwnProperty_def)

lemma queryArgsFor_returns:
  "rootKey \<noteq> None \<or> method = ''getEntry'' \<Longrightarrow>
   \<exists>args. queryArgsFor l rootKey params method = Inr args"
  by (auto simp: queryArgsFor_def)

text \<open>
  C7. For every request whose root key and parameter set are computed and that has an
  \<open>id\<close> or a root key, the orchestrator calls the client, and the call goes through the
  preview client exactly when the link has a preview client and the translated parameter
  set has a truthy \<open>preview\<close> entry; in every other case it goes through the default
  client. (The parameter set has no own property \<open>hasOwnProperty\<close>, which would make
  the orchestrator throw.)
\<close>

theorem preview_client_selection:
  assumes "getRootKey op = Inr rootKey"
    and "parseQueryVariables op = Inr params"
    and "\<not> hasOwn params ''hasOwnProperty''"
    and "hasOwn params ''id'' \<or> rootKey \<noteq> None"
  shows "\<exists>call. planRequest l op = Inr (rootKey, call) \<and>
           subscriber depth collab l op errors =
             Inr (settle depth collab op rootKey errors (fetch collab call)) \<and>
           via call =
             (if previewClient l \<noteq> None \<and> truthy (getProperty params ''preview'')
              then PreviewClient else DeliveryClient)"
proof -
  let ?chosen = "if hasOwn params ''id'' then ''getEntry'' else ''getEntries''"
  from assms(4) have "?chosen = ''getEntry'' \<or> rootKey \<noteq> None" by auto
  then obtain args where args: "queryArgsFor l rootKey params ?chosen = Inr args"
    using queryArgsFor_returns by blast
  let ?call = "\<lparr>via = (if previewClient l \<noteq> None \<and> truthy (getProperty params ''preview'')
                         then PreviewClient else DeliveryClient),
                 queryMethod = ?chosen, queryArgs = args\<rparr>"
  from assms(1,2) args have plan: "planRequest l op = Inr (rootKey, ?call)"
    by (simp add: planRequest_def queryMethodFor_returns [OF assms(3)]
        usePreview_returns [OF assms(3)])
  then have "subscriber depth collab l op errors =
      Inr (settle depth collab op rootKey errors (fetch collab ?call))"
    by (simp add: subscriber_def)
  with plan show ?thesis by (intro exI [of _ ?call]) simp
qed

text \<open>
  Witness for C7: the operation \<open>post\<close>, whose variable \<open>preview\<close> is true, goes
  through the preview client of a link that has one and through the default client of a
  link that has none; the operation \<open>postCollection\<close>, which has no \<open>preview\<close>, goes
  through the default client of the link with a preview client.
\<close>

theorem preview_client_selection_witness:
  "(\<exists>call. planRequest previewLink postOperation = Inr (Some ''post'', call) \<and>
      via call = PreviewClient) \<and>
   (\<exists>call. planRequest deliveryLink postOperation = Inr (Some ''post'', call) \<and>
      via call = DeliveryClient) \<and>
   (\<exists>call. planRequest previewLink postCollectionOperation =
        Inr (Some ''postCollection'', call) \<and>
      via call = DeliveryClient) \<and>
   planRequest previewLink postOperation =
     Inr (Some ''post'',
          \<lparr>via = PreviewClient, queryMethod = ''getEntry'',
           queryArgs = [JStr ''abc123'',
                        JObj [(''include'', JNum 10), (''locale'', JStr ''en-US'')]]\<rparr>)"
proof -
  let ?p = "[(''id'', JStr ''abc123''), (''preview'', JBool True), (''locale'', JStr ''en-US'')]"
  let ?q = "[(''order'', JStr ''-fields.publishedAt''), (''limit'', JStr ''2'')]"
  have k1: "getRootKey postOperation = Inr (Some ''post'')" by code_simp
  have p1: "parseQueryVariables postOperation = Inr ?p" by code_simp
  have k2: "getRootKey postCollectionOperation = Inr (Some ''postCollection'')" by code_simp
  have p2: "parseQueryVariables postCollectionOperation = Inr ?q" by code_simp
  have h1: "\<not> hasOwn ?p ''hasOwnProperty''" and i1: "hasOwn ?p ''id'' \<or> Some ''post'' \<noteq> None"
    and h2: "\<not> hasOwn ?q ''hasOwnProperty''"
    and i2: "hasOwn ?q ''id'' \<or> Some ''postCollection'' \<noteq> None"
    by (simp_all add: hasOwn_def)
  have c1: "previewClient previewLink \<noteq> None" and c2: "previewClient deliveryLink = None"
    by (simp_all add: previewLink_def deliveryLink_def ContentfulRestLink_def hasOwn_def
        getProperty_def)
  have t1: "truthy (getProperty ?p ''preview'')" and t2: "\<not> truthy (getProperty ?q ''preview'')"
    by (simp_all add: getProperty_def)
  from preview_client_selection [OF k1 p1 h1 i1, where l = previewLink and depth = 0
      and collab = "failingEvaluation JNull" and errors = JUndefined] c1 t1
  have a: "\<exists>call. planRequest previewLink postOperation = Inr (Some ''post'', call) \<and>
      via call = PreviewClient"
    by (simp del: ex_simps) blast
  from preview_client_selection [OF k1 p1 h1 i1, where l = deliveryLink and depth = 0
      and collab = "failingEvaluation JNull" and errors = JUndefined] c2
  have b: "\<exists>call. planRequest deliveryLink postOperation = Inr (Some ''post'', call) \<and>
      via call = DeliveryClient"
    by (simp del: ex_simps) blast
  from preview_client_selection [OF k2 p2 h2 i2, where l = previewLink and depth = 0
      and collab = "failingEvaluation JNull" and errors = JUndefined] t2
  have c: "\<exists>call. planRequest previewLink postCollectionOperation =
        Inr (Some ''postCollection'', call) \<and> via call = DeliveryClient"
    by (simp del: ex_simps) blast
  have d: "planRequest previewLink postOperation =
     Inr (Some ''post'',
          \<lparr>via = PreviewClient, queryMethod = ''getEntry'',
           queryArgs = [JStr ''abc123'',
                        JObj [(''include'', JNum 10), (''locale'', JStr ''en-US'')]]\<rparr>)"
    by code_simp
  from a b c d show ?thesis by blast
qed

text \<open>The link has a preview client exactly when its options have a truthy preview token.\<close>

lemma previewClient_configured:
  "previewClient (ContentfulRestLink options defaults) \<noteq> None \<longleftrightarrow>
     truthy (getProperty options ''previewAccessToken'')"
  by (auto simp: ContentfulRestLink_def truthy_hasOwn)

section \<open>Request orchestrator: the content type of a collection\<close>

text \<open>
  C3 (the code at the failing input). For a request without an \<open>id\<close> the content type
  is to be the root key with a trailing \<open>Collection\<close> stripped. The source removes the
  leftmost \<open>Collection\<close>: for the root key \<open>productCollectionItemCollection\<close>, the
  collection of the content type \<open>productCollectionItem\<close>, it calls \<open>getEntries\<close> with
  the content type \<open>productItemCollection\<close>.
\<close>

theorem content_type_leftmost_removed:
  "planRequest deliveryLink productItemsOperation =
     Inr (Some ''productCollectionItemCollection'',
          \<lparr>via = DeliveryClient, queryMethod = ''getEntries'',
           queryArgs = [JObj [(''include'', JNum 10),
                              (''content_type'', JStr ''productItemCollection'')]]\<rparr>) \<and>
   stripSuffix_spec ''productCollectionItemCollection'' ''Collection'' = ''productCollectionItem''"
  by code_simp

section \<open>Request orchestrator: a failure of the evaluation\<close>

lemma settle_evaluation_rejected:
  assumes "buildDefinitionMap depth op = Some definitionMap"
    and "graphqlParser collab rootKey payload (shapeFor definitionMap (operationName op)) =
           Inr parsed"
    and "graphql collab (query op) parsed = Rejected err"
  shows "settle depth collab op rootKey errors (Resolved payload) = Some [ConsoleError err]"
  using assms by (simp add: settle_def)

lemma notifications_console: "notifications [ConsoleError err] = []"
  by (simp add: notifications_def)

text \<open>
  C2 (the code at the failing input). Every request is to end in exactly one terminal
  outcome for the caller, also when the evaluation fails. For the operation
  \<open>postCollection\<close> without a \<open>forward\<close>, a client that resolves and an evaluator that
  rejects with \<open>err\<close>, the one subscriber of the request writes \<open>err\<close> to the console
  and notifies the observer of nothing: neither \<open>next\<close> and \<open>complete\<close> nor \<open>error\<close>.
\<close>

theorem evaluation_failure_not_notified:
  "request depth (failingEvaluation err) (ContentfulRestLink [] []) postCollectionOperation None =
     [Inr (Some [ConsoleError err])] \<and>
   notifications [ConsoleError err] = []"
proof -
  have plan: "planRequest (ContentfulRestLink [] []) postCollectionOperation =
     Inr (Some ''postCollection'',
          \<lparr>via = DeliveryClient, queryMethod = ''getEntries'',
           queryArgs = [JObj [(''order'', JStr ''-fields.publishedAt''),
                              (''limit'', JStr ''2''), (''content_type'', JStr ''post'')]]\<rparr>)"
    by code_simp
  have shape: "buildDefinitionMap depth postCollectionOperation = Some []"
    by (simp add: buildDefinitionMap_def postCollectionOperation_def
        DefinitionKind_OperationDefinition_def)
  have "settle depth (failingEvaluation err) postCollectionOperation (Some ''postCollection'')
      JUndefined (Resolved JNull) = Some [ConsoleError err]"
    by (rule settle_evaluation_rejected [OF shape]) (simp_all add: failingEvaluation_def)
  with plan show ?thesis
    by (simp add: request_def upstream_def subscriber_def failingEvaluation_def
        notifications_console)
qed

text \<open>The sibling path: a rejection of the client's call is passed to the observer.\<close>

lemma settle_fetch_rejected:
  "settle depth collab op rootKey errors (Rejected err) = Some [ObserverError err]"
  by (simp add: settle_def)

text \<open>When the evaluation resolves, the observer is notified once and then completed.\<close>

lemma settle_evaluation_resolved:
  assumes "buildDefinitionMap depth op = Some definitionMap"
    and "graphqlParser collab rootKey payload (shapeFor definitionMap (operationName op)) =
           Inr parsed"
    and "graphql collab (query op) parsed = Resolved data"
  shows "settle depth collab op rootKey errors (Resolved payload) =
           Some [ObserverNext data errors, ObserverComplete]"
  using assms by (simp add: settle_def)

text \<open>
  A parameter set with an own property \<open>hasOwnProperty\<close> (an inline argument or an
  undeclared variable of that name) makes the orchestrator throw before any call.
\<close>

lemma planRequest_shadowed:
  "getRootKey op = Inr rootKey \<Longrightarrow> parseQueryVariables op = Inr params \<Longrightarrow>
   hasOwn params ''hasOwnProperty'' \<Longrightarrow> planRequest l op = Inl TypeError"
  by (simp add: planRequest_def queryMethodFor_def hasOwnProperty_def)

section \<open>Selection-tree extractor: one selection\<close>

text \<open>The fragment that the source finds is the one that the specification names.\<close>

lemma findFragment_spec:
  "map_option selectionSet (findFragment defs nm) =
     (if nm = [] then None else fragmentNamed_spec defs nm)"
proof (induction defs)
  case Nil
  show ?case by (simp add: findFragment_def)
next
  case (Cons d defs)
  show ?case
  proof (cases d)
    case (OperationDefinition opn onm vds sels)
    with Cons.IH show ?thesis
      by (simp add: findFragment_def DefinitionKind_FramentDefinition_def)
  next
    case (FragmentDefinition fnm sels)
    with Cons.IH show ?thesis
      by (auto simp: findFragment_def DefinitionKind_FramentDefinition_def)
  qed
qed

lemma fragmentNamed_spec_Some:
  "fragmentNamed_spec defs nm = Some body \<Longrightarrow> FragmentDefinition nm body \<in> set defs"
proof (induction defs)
  case Nil
  then show ?case by simp
next
  case (Cons d defs)
  then show ?case by (cases d) (auto split: if_splits)
qed

text \<open>
  The body of the loop records what the specification says the selection records,
  by an assignment.
\<close>

lemma extractSelection_spec:
  "extractSelection recur defs sel selections =
     (case recordedKey_spec defs sel of
        None \<Rightarrow> Some selections
      | Some ks \<Rightarrow>
          (case recur (snd ks) of
             None \<Rightarrow> None
           | Some sh \<Rightarrow> Some (assignProperty (fst ks) sh selections)))"
proof (cases sel)
  case (Field nm args sub)
  then show ?thesis
    by (simp add: extractSelection_def SelectionKind_Field_def split: option.splits)
next
  case (FragmentSpread nm)
  show ?thesis
  proof (cases "findFragment defs nm")
    case None
    with findFragment_spec [of defs nm] have "nm = [] \<or> fragmentNamed_spec defs nm = None"
      by (auto split: if_splits)
    with None FragmentSpread show ?thesis
      by (auto simp: extractSelection_def SelectionKind_Field_def
          SelectionKind_FragmentSpread_def)
  next
    case (Some fd)
    with findFragment_spec [of defs nm]
    have "nm \<noteq> []" and "fragmentNamed_spec defs nm = Some (selectionSet fd)"
      by (auto split: if_splits)
    with Some FragmentSpread show ?thesis
      by (simp add: extractSelection_def SelectionKind_Field_def
          SelectionKind_FragmentSpread_def split: option.splits)
  qed
next
  case (InlineFragment sub)
  then show ?thesis
    by (simp add: extractSelection_def SelectionKind_Field_def
        SelectionKind_FragmentSpread_def)
qed

lemma map_of_assignProperty:
  "k \<noteq> ''__proto__'' \<Longrightarrow> map_of (assignProperty k v obj) = (map_of obj)(k \<mapsto> v)"
  by (simp add: assignProperty_def map_of_setProperty)

lemma recordedKey_spec_plain:
  assumes "recordedKey_spec defs sel = Some ks" and "plainNames sel"
  shows "fst ks \<noteq> ''__proto__''"
proof (cases sel)
  case (Field nm args sub)
  with assms show ?thesis by (cases sub) (auto split: if_splits)
next
  case (FragmentSpread nm)
  with assms show ?thesis by (auto split: if_splits)
next
  case (InlineFragment sub)
  with assms show ?thesis by simp
qed

text \<open>The key recorded by a sequence of selections, selection by selection.\<close>

lemma recorded_spec_Nil: "recorded_spec defs [] k = None"
  by (simp add: recorded_spec_def)

lemma recorded_spec_Cons:
  "recorded_spec defs (sel # sels) k =
     (case recorded_spec defs sels k of
        Some source \<Rightarrow> Some source
      | None \<Rightarrow>
          (case recordedKey_spec defs sel of
             None \<Rightarrow> None
           | Some ks \<Rightarrow> if fst ks = k then Some (snd ks) else None))"
proof (cases "recordedKey_spec defs sel")
  case None
  then show ?thesis by (simp add: recorded_spec_def split: option.splits)
next
  case (Some ks)
  then have "recorded_spec defs (sel # sels) k =
      ([fst ks \<mapsto> snd ks] ++ recorded_spec defs sels) k"
    by (simp add: recorded_spec_def map_of_rev_Cons del: rev.simps)
  with Some show ?thesis by (simp add: map_add_def split: option.splits)
qed

section \<open>Selection-tree extractor: the depth of the calls\<close>

text \<open>
  A run that returns within a bound on the depth of the calls returns the same shape
  within every greater bound.
\<close>

lemma extractSelection_mono:
  assumes "\<And>ss r. recur ss = Some r \<Longrightarrow> recur' ss = Some r"
    and "extractSelection recur defs sel acc = Some acc'"
  shows "extractSelection recur' defs sel acc = Some acc'"
  using assms(2)
  by (auto simp: extractSelection_def split: if_splits option.splits dest: assms(1))

lemma foldO_mono:
  assumes "\<And>x s s'. f x s = Some s' \<Longrightarrow> g x s = Some s'"
    and "foldO f xs s = Some r"
  shows "foldO g xs s = Some r"
  using assms(2)
proof (induction xs arbitrary: s)
  case Nil
  then show ?case by simp
next
  case (Cons x xs)
  from Cons.prems obtain s' where a: "f x s = Some s'" and b: "foldO f xs s' = Some r"
    by (auto split: option.splits)
  from a have "g x s = Some s'" by (rule assms(1))
  with Cons.IH [OF b] show ?case by simp
qed

lemma extractSelections_Suc:
  "extractSelections n defs selSet = Some r \<Longrightarrow> extractSelections (Suc n) defs selSet = Some r"
proof (induction n arbitrary: selSet r)
  case 0
  then show ?case by simp
next
  case (Suc n)
  show ?case
  proof (cases selSet)
    case None
    with Suc.prems show ?thesis by simp
  next
    case (Some sels)
    show ?thesis
    proof (cases "sels = []")
      case True
      with Some Suc.prems show ?thesis by simp
    next
      case False
      with Some Suc.prems obtain m where r: "r = Shape m"
        and f: "foldO (extractSelection (extractSelections n defs) defs) sels [] = Some m"
        by auto
      have "foldO (extractSelection (extractSelections (Suc n) defs) defs) sels [] = Some m"
        using _ f
      proof (rule foldO_mono)
        fix x s s'
        assume "extractSelection (extractSelections n defs) defs x s = Some s'"
        with Suc.IH show "extractSelection (extractSelections (Suc n) defs) defs x s = Some s'"
          by (rule extractSelection_mono)
      qed
      with Some False r show ?thesis by simp
    qed
  qed
qed

lemma extractSelections_deeper:
  "extractSelections n defs selSet = Some r \<Longrightarrow> n \<le> m \<Longrightarrow>
   extractSelections m defs selSet = Some r"
proof (induction m)
  case 0
  then show ?case by simp
next
  case (Suc m)
  show ?case
  proof (cases "n = Suc m")
    case True
    with Suc.prems show ?thesis by simp
  next
    case False
    with Suc.prems have "n \<le> m" by simp
    with Suc.IH Suc.prems(1) have "extractSelections m defs selSet = Some r" by simp
    then show ?thesis by (rule extractSelections_Suc)
  qed
qed

text \<open>A depth that suffices for each selection of a list suffices for all of them.\<close>

lemma uniform_depth:
  assumes "\<forall>x\<in>set xs. \<exists>n. \<forall>m\<ge>n. Q x m"
  shows "\<exists>N::nat. \<forall>x\<in>set xs. \<forall>m\<ge>N. Q x m"
  using assms
proof (induction xs)
  case Nil
  show ?case by simp
next
  case (Cons x xs)
  from Cons.prems have "\<forall>x\<in>set xs. \<exists>n. \<forall>m\<ge>n. Q x m" by simp
  then obtain N where N: "\<forall>x\<in>set xs. \<forall>m\<ge>N. Q x m" using Cons.IH by blast
  from Cons.prems obtain n where n: "\<forall>m\<ge>n. Q x m" by auto
  have "\<forall>y\<in>set (x # xs). \<forall>m\<ge>max n N. Q y m"
  proof (intro ballI allI impI)
    fix y m assume y: "y \<in> set (x # xs)" and m: "max n N \<le> m"
    show "Q y m"
    proof (cases "y = x")
      case True
      with n m show ?thesis by simp
    next
      case False
      with y have "y \<in> set xs" by simp
      with N m show ?thesis by simp
    qed
  qed
  then show ?case by blast
qed

section \<open>Selection-tree extractor: the loop\<close>

text \<open>
  When the recursive call returns on what each selection records, the loop returns, and
  each key holds what the call returned on the selection set recorded under it.
\<close>

lemma foldO_recorded:
  assumes "\<forall>sel\<in>set sels. \<forall>ks. recordedKey_spec defs sel = Some ks \<longrightarrow>
             fst ks \<noteq> ''__proto__'' \<and> recur (snd ks) \<noteq> None"
  shows "\<exists>result. foldO (extractSelection recur defs) sels acc = Some result \<and>
           (\<forall>k. map_of result k =
              (case recorded_spec defs sels k of
                 None \<Rightarrow> map_of acc k
               | Some source \<Rightarrow> recur source))"
  using assms
proof (induction sels arbitrary: acc)
  case Nil
  show ?case by (simp add: recorded_spec_Nil)
next
  case (Cons sel sels)
  from Cons.prems
  have rest: "\<forall>sel\<in>set sels. \<forall>ks. recordedKey_spec defs sel = Some ks \<longrightarrow>
             fst ks \<noteq> ''__proto__'' \<and> recur (snd ks) \<noteq> None"
    by simp
  show ?case
  proof (cases "recordedKey_spec defs sel")
    case None
    then have step: "extractSelection recur defs sel acc = Some acc"
      by (simp add: extractSelection_spec)
    from Cons.IH [OF rest, of acc] obtain result
      where r: "foldO (extractSelection recur defs) sels acc = Some result"
        and l: "\<forall>k. map_of result k =
              (case recorded_spec defs sels k of
                 None \<Rightarrow> map_of acc k
               | Some source \<Rightarrow> recur source)"
      by blast
    from step r have "foldO (extractSelection recur defs) (sel # sels) acc = Some result"
      by simp
    moreover from l None have "\<forall>k. map_of result k =
              (case recorded_spec defs (sel # sels) k of
                 None \<Rightarrow> map_of acc k
               | Some source \<Rightarrow> recur source)"
      by (simp add: recorded_spec_Cons split: option.splits)
    ultimately show ?thesis by blast
  next
    case (Some ks)
    from Cons.prems have "sel \<in> set (sel # sels) \<longrightarrow>
        (\<forall>ks. recordedKey_spec defs sel = Some ks \<longrightarrow>
           fst ks \<noteq> ''__proto__'' \<and> recur (snd ks) \<noteq> None)"
      by blast
    with Some have key: "fst ks \<noteq> ''__proto__''" and "recur (snd ks) \<noteq> None"
      by (simp_all del: split_paired_All)
    then obtain sh where sh: "recur (snd ks) = Some sh" by auto
    let ?acc = "assignProperty (fst ks) sh acc"
    from Some sh have step: "extractSelection recur defs sel acc = Some ?acc"
      by (simp add: extractSelection_spec)
    from Cons.IH [OF rest, of ?acc] obtain result
      where r: "foldO (extractSelection recur defs) sels ?acc = Some result"
        and l: "\<forall>k. map_of result k =
              (case recorded_spec defs sels k of
                 None \<Rightarrow> map_of ?acc k
               | Some source \<Rightarrow> recur source)"
      by blast
    from step r have "foldO (extractSelection recur defs) (sel # sels) acc = Some result"
      by simp
    moreover have "map_of result k =
              (case recorded_spec defs (sel # sels) k of
                 None \<Rightarrow> map_of acc k
               | Some source \<Rightarrow> recur source)" for k
    proof (cases "recorded_spec defs sels k")
      case None
      with l have "map_of result k = map_of ?acc k" by simp
      also have "\<dots> = ((map_of acc)(fst ks \<mapsto> sh)) k"
        by (simp only: map_of_assignProperty [OF key])
      finally show ?thesis using None Some sh
        by (simp add: recorded_spec_Cons)
    next
      case (Some source)
      with l show ?thesis by (simp add: recorded_spec_Cons)
    qed
    ultimately show ?thesis by blast
  qed
qed

text \<open>What is recorded under a key is recorded by one of the selections.\<close>

lemma recorded_spec_Some:
  "recorded_spec defs sels k = Some source \<Longrightarrow>
   \<exists>sel\<in>set sels. recordedKey_spec defs sel = Some (k, source)"
proof (induction sels)
  case Nil
  then show ?case by (simp add: recorded_spec_Nil)
next
  case (Cons sel sels)
  show ?case
  proof (cases "recorded_spec defs sels k")
    case None
    with Cons.prems have "recordedKey_spec defs sel = Some (k, source)"
      by (auto simp: recorded_spec_Cons split: option.splits if_splits)
    then show ?thesis by simp
  next
    case (Some s)
    with Cons.prems have "s = source" by (simp add: recorded_spec_Cons)
    with Some Cons.IH show ?thesis by auto
  qed
qed

section \<open>Selection-tree extractor: the extraction returns the specified shape\<close>

lemma extractSelections_absent: "0 < m \<Longrightarrow> extractSelections m defs None = Some Leaf"
  by (cases m) simp_all

lemma extractSelections_empty: "0 < m \<Longrightarrow> extractSelections m defs (Some []) = Some Leaf"
  by (cases m) simp_all

lemma size_selection_set:
  "Field nm args (Some sub) \<in> set sels \<Longrightarrow> size_list size sub < size_list size sels"
  by (rule size_list_estimation [where x = "Field nm args (Some sub)"]) simp_all

lemma spreadNames_member:
  "sel \<in> set sels \<Longrightarrow> nm \<in> set (spreadNames sel) \<Longrightarrow>
   nm \<in> set (concat (map spreadNames sels))"
  by auto

lemma acyclicFragments_body:
  assumes "acyclicFragments rank defs" and "fragmentNamed_spec defs nm = Some body"
    and "nm' \<in> set (concat (map spreadNames body))"
  shows "fragmentNamed_spec defs nm' = None \<or> rank nm' < rank nm"
proof -
  from assms(2) have d: "FragmentDefinition nm body \<in> set defs"
    by (rule fragmentNamed_spec_Some)
  from assms(3) have "nm' \<in> set (concat (map spreadNames (selectionSet (FragmentDefinition nm body))))"
    by simp
  with assms(1) d have "case FragmentDefinition nm body of
           FragmentDefinition fnm body \<Rightarrow>
             fragmentNamed_spec defs nm' = None \<or> rank nm' < rank fnm
         | OperationDefinition opn onm vds body \<Rightarrow> True"
    unfolding acyclicFragments_def by blast
  then show ?thesis by simp
qed

text \<open>
  When no fragment reaches itself and no field is named \<open>__proto__\<close>, the extraction
  returns within some depth of the calls, and the shape is the specified one.
\<close>

lemma extractSelections_total:
  assumes acyc: "acyclicFragments rank defs"
    and dn: "\<forall>d\<in>set defs. \<forall>s\<in>set (selectionSet d). plainNames s"
  shows "(\<forall>nm\<in>set (concat (map spreadNames sels)).
            fragmentNamed_spec defs nm = None \<or> rank nm < r) \<Longrightarrow>
         (\<forall>s\<in>set sels. plainNames s) \<Longrightarrow>
         \<exists>n sh. (\<forall>m\<ge>n. extractSelections m defs (Some sels) = Some sh) \<and>
                shapeOf_spec defs (Some sels) sh \<and>
                (\<forall>k. recorded_spec defs sels k = None \<longrightarrow> shapeEntry sh k = None) \<and>
                (\<forall>k source. recorded_spec defs sels k = Some source \<longrightarrow>
                   (\<exists>fsh. shapeEntry sh k = Some fsh \<and> shapeOf_spec defs source fsh \<and>
                          (\<forall>m\<ge>n. extractSelections m defs source = Some fsh)))"
proof (induction r arbitrary: sels rule: less_induct)
  case (less r)
  note outer = less.IH
  from less.prems show ?case
  proof (induction sels rule: measure_induct_rule [of "size_list size"])
    case (less sels)
    note inner = less.IH and bound = less.prems(1) and plain = less.prems(2)
    show ?case
    proof (cases "sels = []")
      case True
      have "\<forall>m\<ge>1. extractSelections m defs (Some sels) = Some Leaf"
        using True by (simp add: extractSelections_empty)
      moreover have "shapeOf_spec defs (Some sels) Leaf"
        using True by (simp add: shapeOf_spec.empty)
      moreover have "\<forall>k. recorded_spec defs sels k = None" using True
        by (simp add: recorded_spec_Nil)
      ultimately show ?thesis by (intro exI [of _ 1] exI [of _ Leaf]) simp
    next
      case False
      define Q where "Q sel m \<longleftrightarrow>
          (\<forall>ks. recordedKey_spec defs sel = Some ks \<longrightarrow>
             (\<exists>sh. extractSelections m defs (snd ks) = Some sh \<and>
                   shapeOf_spec defs (snd ks) sh))" for sel m
      have each: "\<exists>n. \<forall>m\<ge>n. Q sel m" if mem: "sel \<in> set sels" for sel
      proof (cases sel)
        case (Field nm args sub)
        show ?thesis
        proof (cases sub)
          case None
          have "Q sel m" if "1 \<le> m" for m
            unfolding Q_def using Field None that
            by (auto simp: extractSelections_absent shapeOf_spec.absent split: if_splits)
          then show ?thesis by blast
        next
          case (Some ss)
          from mem Field Some have sz: "size_list size ss < size_list size sels"
            by (simp add: size_selection_set)
          have b: "\<forall>nm\<in>set (concat (map spreadNames ss)).
              fragmentNamed_spec defs nm = None \<or> rank nm < r"
          proof
            fix nm' assume "nm' \<in> set (concat (map spreadNames ss))"
            with Field Some have "nm' \<in> set (spreadNames sel)" by simp
            with mem have "nm' \<in> set (concat (map spreadNames sels))"
              by (rule spreadNames_member)
            with bound show "fragmentNamed_spec defs nm' = None \<or> rank nm' < r" by blast
          qed
          from plain mem have "plainNames sel" by blast
          with Field Some have p: "\<forall>s\<in>set ss. plainNames s" by simp
          from inner [OF sz b p] obtain n sh
            where "\<forall>m\<ge>n. extractSelections m defs (Some ss) = Some sh"
              and "shapeOf_spec defs (Some ss) sh"
            by blast
          then have "Q sel m" if "n \<le> m" for m
            unfolding Q_def using Field Some that by (auto split: if_splits)
          then show ?thesis by blast
        qed
      next
        case (FragmentSpread nm)
        show ?thesis
        proof (cases "recordedKey_spec defs sel")
          case None
          then have "Q sel m" for m by (simp add: Q_def)
          then show ?thesis by blast
        next
          case (Some ks)
          with FragmentSpread obtain body
            where found: "fragmentNamed_spec defs nm = Some body"
              and ks: "ks = (''...'' @ nm, Some body)"
            by (auto split: if_splits)
          from FragmentSpread have "nm \<in> set (spreadNames sel)" by simp
          with mem have "nm \<in> set (concat (map spreadNames sels))"
            by (rule spreadNames_member)
          with bound have "fragmentNamed_spec defs nm = None \<or> rank nm < r" by blast
          with found have rk: "rank nm < r" by simp
          have b: "\<forall>nm'\<in>set (concat (map spreadNames body)).
              fragmentNamed_spec defs nm' = None \<or> rank nm' < rank nm"
            using acyclicFragments_body [OF acyc found] by blast
          from found have "FragmentDefinition nm body \<in> set defs"
            by (rule fragmentNamed_spec_Some)
          with dn have "\<forall>s\<in>set (selectionSet (FragmentDefinition nm body)). plainNames s"
            by blast
          then have p: "\<forall>s\<in>set body. plainNames s" by simp
          from outer [OF rk b p] obtain n sh
            where "\<forall>m\<ge>n. extractSelections m defs (Some body) = Some sh"
              and "shapeOf_spec defs (Some body) sh"
            by blast
          then have "Q sel m" if "n \<le> m" for m
            unfolding Q_def using Some ks that by auto
          then show ?thesis by blast
        qed
      next
        case (InlineFragment sub)
        then have "Q sel m" for m by (simp add: Q_def)
        then show ?thesis by blast
      qed
      then have "\<forall>sel\<in>set sels. \<exists>n. \<forall>m\<ge>n. Q sel m" by blast
      then obtain N where N: "\<forall>sel\<in>set sels. \<forall>m\<ge>N. Q sel m"
        using uniform_depth [of sels Q] by blast
      have rec: "\<forall>sel\<in>set sels. \<forall>ks. recordedKey_spec defs sel = Some ks \<longrightarrow>
             fst ks \<noteq> ''__proto__'' \<and> extractSelections N defs (snd ks) \<noteq> None"
      proof (intro ballI allI impI)
        fix sel ks assume mem: "sel \<in> set sels" and ks: "recordedKey_spec defs sel = Some ks"
        from plain mem have "plainNames sel" by blast
        with ks have "fst ks \<noteq> ''__proto__''" by (rule recordedKey_spec_plain)
        moreover from N mem have "Q sel N" by blast
        with ks have "extractSelections N defs (snd ks) \<noteq> None"
          unfolding Q_def by auto
        ultimately show "fst ks \<noteq> ''__proto__'' \<and> extractSelections N defs (snd ks) \<noteq> None"
          by simp
      qed
      from foldO_recorded [OF rec, of "[]"] obtain result
        where r: "foldO (extractSelection (extractSelections N defs) defs) sels [] = Some result"
          and l: "\<forall>k. map_of result k =
              (case recorded_spec defs sels k of
                 None \<Rightarrow> map_of [] k
               | Some source \<Rightarrow> extractSelections N defs source)"
        by blast
      from r False have "extractSelections (Suc N) defs (Some sels) = Some (Shape result)"
        by simp
      then have top: "\<forall>m\<ge>Suc N. extractSelections m defs (Some sels) = Some (Shape result)"
        by (blast intro: extractSelections_deeper)
      have none: "\<forall>k. recorded_spec defs sels k = None \<longrightarrow> map_of result k = None"
        using l by simp
      have some: "\<exists>fsh. map_of result k = Some fsh \<and> shapeOf_spec defs source fsh \<and>
              (\<forall>m\<ge>Suc N. extractSelections m defs source = Some fsh)"
        if rs: "recorded_spec defs sels k = Some source" for k source
      proof -
        from rs obtain sel where mem: "sel \<in> set sels"
          and ks: "recordedKey_spec defs sel = Some (k, source)"
          using recorded_spec_Some by blast
        from N mem have "Q sel N" by blast
        with ks obtain fsh where f: "extractSelections N defs source = Some fsh"
          and s: "shapeOf_spec defs source fsh"
          unfolding Q_def by auto
        from l rs f have "map_of result k = Some fsh" by simp
        moreover from f have "\<forall>m\<ge>Suc N. extractSelections m defs source = Some fsh"
          by (auto intro: extractSelections_deeper)
        ultimately show ?thesis using s by blast
      qed
      have "shapeOf_spec defs (Some sels) (Shape result)"
      proof (rule shapeOf_spec.selections [OF False none])
        show "\<forall>k source. recorded_spec defs sels k = Some source \<longrightarrow>
            (\<exists>sh. map_of result k = Some sh \<and> shapeOf_spec defs source sh)"
          using some by blast
      qed
      with top none some show ?thesis
        by (intro exI [of _ "Suc N"] exI [of _ "Shape result"]) simp
    qed
  qed
qed

section \<open>Selection-tree extractor: fragment spreads\<close>

text \<open>
  Among selections whose fields have the names of fields, the key of a spread is recorded
  by spreads of that name only.
\<close>

lemma recordedKey_spec_spread:
  assumes "recordedKey_spec defs sel = Some (''...'' @ nm, source)" and "plainNames sel"
  shows "sel = FragmentSpread nm \<and> nm \<noteq> [] \<and>
         (\<exists>body. fragmentNamed_spec defs nm = Some body \<and> source = Some body)"
proof (cases sel)
  case (Field fnm args sub)
  with assms(1) have "fnm = ''...'' @ nm" by (simp split: if_splits)
  then have "take 3 fnm = ''...''" by simp
  with Field assms(2) show ?thesis by (cases sub) simp_all
next
  case (FragmentSpread snm)
  with assms(1) show ?thesis by (auto split: if_splits)
next
  case (InlineFragment sub)
  with assms(1) show ?thesis by simp
qed

lemma recorded_spec_unfound:
  assumes "nm = [] \<or> fragmentNamed_spec defs nm = None" and "\<forall>s\<in>set sels. plainNames s"
  shows "recorded_spec defs sels (''...'' @ nm) = None"
proof (rule ccontr)
  assume "recorded_spec defs sels (''...'' @ nm) \<noteq> None"
  then obtain source where "recorded_spec defs sels (''...'' @ nm) = Some source" by auto
  then obtain sel where mem: "sel \<in> set sels"
    and ks: "recordedKey_spec defs sel = Some (''...'' @ nm, source)"
    using recorded_spec_Some by blast
  from assms(2) mem have "plainNames sel" by blast
  with ks have "nm \<noteq> [] \<and> (\<exists>body. fragmentNamed_spec defs nm = Some body)"
    using recordedKey_spec_spread by blast
  with assms(1) show False by auto
qed

lemma recorded_spec_found:
  assumes "FragmentSpread nm \<in> set sels" and "nm \<noteq> []"
    and "fragmentNamed_spec defs nm = Some body" and "\<forall>s\<in>set sels. plainNames s"
  shows "recorded_spec defs sels (''...'' @ nm) = Some (Some body)"
  using assms(1,4)
proof (induction sels)
  case Nil
  then show ?case by simp
next
  case (Cons sel sels)
  from Cons.prems(2) have plain: "\<forall>s\<in>set sels. plainNames s" and here: "plainNames sel"
    by simp_all
  show ?case
  proof (cases "recorded_spec defs sels (''...'' @ nm)")
    case None
    have "FragmentSpread nm \<notin> set sels"
    proof
      assume "FragmentSpread nm \<in> set sels"
      then have "recorded_spec defs sels (''...'' @ nm) = Some (Some body)"
        using plain by (rule Cons.IH)
      with None show False by simp
    qed
    with Cons.prems(1) have "sel = FragmentSpread nm" by simp
    with assms(2,3) have "recordedKey_spec defs sel = Some (''...'' @ nm, Some body)" by simp
    with None show ?thesis by (simp add: recorded_spec_Cons)
  next
    case (Some source)
    then obtain sel' where mem: "sel' \<in> set sels"
      and ks: "recordedKey_spec defs sel' = Some (''...'' @ nm, source)"
      using recorded_spec_Some by blast
    from plain mem have "plainNames sel'" by blast
    with ks have "\<exists>body'. fragmentNamed_spec defs nm = Some body' \<and> source = Some body'"
      using recordedKey_spec_spread by blast
    with assms(3) have "source = Some body" by auto
    with Some show ?thesis by (simp add: recorded_spec_Cons)
  qed
qed

text \<open>
  C9 (amended). For every selection set and definitions list in which no fragment
  reaches itself through fragment spreads (the fragments have a rank that decreases
  along the spreads) and in which the fields have the names of fields (none is
  \<open>__proto__\<close>, none starts with \<open>...\<close>): the selection-tree extractor returns, within
  some depth of the calls and within every greater one, the shape that the
  specification describes; a fragment spread whose fragment definition is found has the
  entry \<open>...<FragmentName>\<close> in it, with the shape specified for, and extracted from,
  the selection set of the fragment; and a fragment spread whose name matches no
  fragment definition has no entry, the extractor returning all the same.
\<close>

theorem fragment_spreads_in_shape:
  assumes "acyclicFragments rank defs"
    and "\<forall>d\<in>set defs. \<forall>s\<in>set (selectionSet d). plainNames s"
    and "\<forall>s\<in>set sels. plainNames s"
  shows "\<exists>depth sh.
           (\<forall>n\<ge>depth. extractSelections n defs (Some sels) = Some sh) \<and>
           shapeOf_spec defs (Some sels) sh \<and>
           (\<forall>nm body. FragmentSpread nm \<in> set sels \<and> nm \<noteq> [] \<and>
                       fragmentNamed_spec defs nm = Some body \<longrightarrow>
              (\<exists>fsh. shapeEntry sh (''...'' @ nm) = Some fsh \<and>
                     shapeOf_spec defs (Some body) fsh \<and>
                     (\<forall>n\<ge>depth. extractSelections n defs (Some body) = Some fsh))) \<and>
           (\<forall>nm. FragmentSpread nm \<in> set sels \<and>
                  (nm = [] \<or> fragmentNamed_spec defs nm = None) \<longrightarrow>
              shapeEntry sh (''...'' @ nm) = None)"
proof -
  let ?r = "Suc (sum_list (map rank (concat (map spreadNames sels))))"
  have "\<forall>nm\<in>set (concat (map spreadNames sels)). fragmentNamed_spec defs nm = None \<or> rank nm < ?r"
  proof
    fix nm assume "nm \<in> set (concat (map spreadNames sels))"
    then have "rank nm \<in> set (map rank (concat (map spreadNames sels)))" by simp
    then have "rank nm \<le> sum_list (map rank (concat (map spreadNames sels)))"
      by (simp add: member_le_sum_list)
    then show "fragmentNamed_spec defs nm = None \<or> rank nm < ?r" by simp
  qed
  from extractSelections_total [OF assms(1,2) this assms(3)] obtain depth sh
    where ret: "\<forall>m\<ge>depth. extractSelections m defs (Some sels) = Some sh"
      and spec: "shapeOf_spec defs (Some sels) sh"
      and none: "\<forall>k. recorded_spec defs sels k = None \<longrightarrow> shapeEntry sh k = None"
      and some: "\<forall>k source. recorded_spec defs sels k = Some source \<longrightarrow>
                   (\<exists>fsh. shapeEntry sh k = Some fsh \<and> shapeOf_spec defs source fsh \<and>
                          (\<forall>m\<ge>depth. extractSelections m defs source = Some fsh))"
    by blast
  have found: "\<exists>fsh. shapeEntry sh (''...'' @ nm) = Some fsh \<and>
                     shapeOf_spec defs (Some body) fsh \<and>
                     (\<forall>n\<ge>depth. extractSelections n defs (Some body) = Some fsh)"
    if "FragmentSpread nm \<in> set sels \<and> nm \<noteq> [] \<and> fragmentNamed_spec defs nm = Some body"
    for nm body
  proof -
    from that assms(3) have "recorded_spec defs sels (''...'' @ nm) = Some (Some body)"
      by (intro recorded_spec_found) simp_all
    with some show ?thesis by blast
  qed
  have unfound: "shapeEntry sh (''...'' @ nm) = None"
    if "FragmentSpread nm \<in> set sels \<and> (nm = [] \<or> fragmentNamed_spec defs nm = None)" for nm
  proof -
    from that assms(3) have "recorded_spec defs sels (''...'' @ nm) = None"
      by (intro recorded_spec_unfound) simp_all
    with none show ?thesis by blast
  qed
  from ret spec found unfound show ?thesis by blast
qed

text \<open>
  Witness for C9: the selections \<open>title ...Outer ...Missing\<close>, where the fragment
  \<open>Outer\<close> spreads the fragment \<open>Inner\<close> below a field and \<open>Missing\<close> is not
  defined. The extraction returns within five nested calls; \<open>...Outer\<close> has the shape
  of the fragment, with that of \<open>Inner\<close> in it, and \<open>...Missing\<close> has no entry.
\<close>

theorem fragment_spreads_in_shape_witness:
  "acyclicFragments nestedRank nestedDefinitions \<and>
   extractSelections 5 nestedDefinitions (Some nestedSelections) =
     Some (Shape [(''title'', Leaf),
                  (''...Outer'',
                   Shape [(''author'',
                           Shape [(''...Inner'', Shape [(''name'', Leaf)])])])]) \<and>
   shapeOf_spec nestedDefinitions (Some nestedSelections)
     (Shape [(''title'', Leaf),
             (''...Outer'',
              Shape [(''author'', Shape [(''...Inner'', Shape [(''name'', Leaf)])])])]) \<and>
   fragmentNamed_spec nestedDefinitions ''Outer'' =
     Some [Field ''author'' (Some []) (Some [FragmentSpread ''Inner''])] \<and>
   shapeOf_spec nestedDefinitions
     (Some [Field ''author'' (Some []) (Some [FragmentSpread ''Inner''])])
     (Shape [(''author'', Shape [(''...Inner'', Shape [(''name'', Leaf)])])]) \<and>
   fragmentNamed_spec nestedDefinitions ''Missing'' = None \<and>
   shapeEntry
     (Shape [(''title'', Leaf),
             (''...Outer'',
              Shape [(''author'', Shape [(''...Inner'', Shape [(''name'', Leaf)])])])])
     ''...Missing'' = None"
proof -
  let ?outer = "[Field ''author'' (Some []) (Some [FragmentSpread ''Inner''])]"
  let ?fsh = "Shape [(''author'', Shape [(''...Inner'', Shape [(''name'', Leaf)])])]"
  let ?sh = "Shape [(''title'', Leaf), (''...Outer'', ?fsh)]"
  have a: "acyclicFragments nestedRank nestedDefinitions" by code_simp
  have p1: "\<forall>d\<in>set nestedDefinitions. \<forall>s\<in>set (selectionSet d). plainNames s" by code_simp
  have p2: "\<forall>s\<in>set nestedSelections. plainNames s" by code_simp
  have c: "extractSelections 5 nestedDefinitions (Some nestedSelections) = Some ?sh"
    by code_simp
  have fo: "fragmentNamed_spec nestedDefinitions ''Outer'' = Some ?outer" by code_simp
  have fm: "fragmentNamed_spec nestedDefinitions ''Missing'' = None" by code_simp
  have so: "FragmentSpread ''Outer'' \<in> set nestedSelections"
    and sm: "FragmentSpread ''Missing'' \<in> set nestedSelections"
    by (simp_all add: nestedSelections_def)
  from fragment_spreads_in_shape [OF a p1 p2] obtain depth sh
    where ret: "\<forall>n\<ge>depth. extractSelections n nestedDefinitions (Some nestedSelections) = Some sh"
      and spec: "shapeOf_spec nestedDefinitions (Some nestedSelections) sh"
      and found: "\<forall>nm body. FragmentSpread nm \<in> set nestedSelections \<and> nm \<noteq> [] \<and>
                       fragmentNamed_spec nestedDefinitions nm = Some body \<longrightarrow>
              (\<exists>fsh. shapeEntry sh (''...'' @ nm) = Some fsh \<and>
                     shapeOf_spec nestedDefinitions (Some body) fsh \<and>
                     (\<forall>n\<ge>depth. extractSelections n nestedDefinitions (Some body) = Some fsh))"
      and unfound: "\<forall>nm. FragmentSpread nm \<in> set nestedSelections \<and>
                  (nm = [] \<or> fragmentNamed_spec nestedDefinitions nm = None) \<longrightarrow>
              shapeEntry sh (''...'' @ nm) = None"
    by blast
  from c have "extractSelections (max depth 5) nestedDefinitions (Some nestedSelections) = Some ?sh"
    by (rule extractSelections_deeper) simp
  moreover from ret
  have "extractSelections (max depth 5) nestedDefinitions (Some nestedSelections) = Some sh"
    by simp
  ultimately have sh: "sh = ?sh" by simp
  from found so fo obtain fsh where e: "shapeEntry sh (''...'' @ ''Outer'') = Some fsh"
    and s: "shapeOf_spec nestedDefinitions (Some ?outer) fsh"
    by blast
  from e have "fsh = ?fsh" unfolding sh by simp
  with s have s': "shapeOf_spec nestedDefinitions (Some ?outer) ?fsh" by simp
  from unfound sm fm have "shapeEntry sh (''...'' @ ''Missing'') = None" by blast
  then have m: "shapeEntry ?sh ''...Missing'' = None" unfolding sh by simp
  from spec have spec': "shapeOf_spec nestedDefinitions (Some nestedSelections) ?sh"
    unfolding sh .
  from a c spec' fo s' fm m show ?thesis by (intro conjI)
qed

text \<open>
  Counterexample to C9 as stated ("for every selection set and definitions list"): the
  fragment \<open>F\<close> spreads itself. The fragment definition of the spread \<open>...F\<close> is
  found, and the extractor calls itself on the selection set of \<open>F\<close> without end: it
  returns within no depth of the calls, and records nothing.
\<close>

theorem self_spreading_fragment_counterexample:
  "findFragment selfSpreadDefinitions ''F'' = Some (FragmentDefinition ''F'' [FragmentSpread ''F'']) \<and>
   fragmentNamed_spec selfSpreadDefinitions ''F'' = Some [FragmentSpread ''F''] \<and>
   (\<forall>depth. extractSelections depth selfSpreadDefinitions (Some [FragmentSpread ''F'']) = None)"
proof -
  have f: "findFragment selfSpreadDefinitions ''F'' =
      Some (FragmentDefinition ''F'' [FragmentSpread ''F''])"
    by code_simp
  have s: "fragmentNamed_spec selfSpreadDefinitions ''F'' = Some [FragmentSpread ''F'']"
    by code_simp
  have "extractSelections depth selfSpreadDefinitions (Some [FragmentSpread ''F'']) = None"
    for depth
  proof (induction depth)
    case 0
    show ?case by simp
  next
    case (Suc n)
    then show ?case
      by (simp add: extractSelection_def f SelectionKind_Field_def
          SelectionKind_FragmentSpread_def)
  qed
  with f s show ?thesis by simp
qed

end
